theory Spec2Isabelle
  imports Complex_Main
begin

section \<open>Values handled by the scheduler\<close>

text \<open>
  The embedding follows \<^verbatim>\<open>src/scheduler/core.py\<close>. Python objects with identity (jobs
  and sets) live in an explicit store and are named by references. An instant is a point
  on the time line in microseconds, a \<^verbatim>\<open>dt.timedelta\<close> a number of microseconds, and a
  \<^verbatim>\<open>dt.tzinfo\<close> a fixed offset (\<open>None\<close> is a naive clock). Floats are read as reals.
\<close>

type_synonym job_ref = nat
type_synonym set_ref = nat
type_synonym instant = int
type_synonym tz = "int option"

datatype JobType = CYCLIC | MINUTELY | HOURLY | DAILY | WEEKLY

datatype Weekday = Monday | Tuesday | Wednesday | Thursday | Friday | Saturday | Sunday

text \<open>The values a caller can pass as \<^verbatim>\<open>timing\<close>; \<open>Other\<close> is any value of another type.\<close>

datatype pyval =
    Datetime instant tz
  | Timedelta int
  | Time int tz
  | Trigger Weekday
  | Tuple "pyval list"
  | PyList "pyval list"
  | Other

datatype pytype =
    T_datetime | T_timedelta | T_time | T_weekly Weekday | T_tuple | T_list | T_other

fun type_of :: "pyval \<Rightarrow> pytype" where
  "type_of (Datetime t z) = T_datetime"
| "type_of (Timedelta d) = T_timedelta"
| "type_of (Time t z) = T_time"
| "type_of (Trigger w) = T_weekly w"
| "type_of (Tuple vs) = T_tuple"
| "type_of (PyList vs) = T_list"
| "type_of Other = T_other"

text \<open>\<^verbatim>\<open>JOB_TYPE_MAPPING\<close>: a dictionary keyed by the class of the timing value.\<close>

fun JOB_TYPE_MAPPING :: "pytype \<Rightarrow> JobType option" where
  "JOB_TYPE_MAPPING T_timedelta = Some CYCLIC"
| "JOB_TYPE_MAPPING T_time = Some DAILY"
| "JOB_TYPE_MAPPING (T_weekly w) = Some WEEKLY"
| "JOB_TYPE_MAPPING T_datetime = None"
| "JOB_TYPE_MAPPING T_tuple = None"
| "JOB_TYPE_MAPPING T_list = None"
| "JOB_TYPE_MAPPING T_other = None"

text \<open>
  The exceptions that reach a caller; \<open>CallbackError\<close> is whatever a callback raised. A
  call that executes jobs returns a value, raises, or waits forever.
\<close>

datatype error = SchedulerError string | KeyError | CallbackError

datatype 'a outcome = Returns 'a | Raises error | Blocks

definition ONCE_TYPE_ERROR_MSG :: string where
  "ONCE_TYPE_ERROR_MSG =
     ''Wrong input for Once! Select one of the following input types:'' @ [CHR 0x0A]
     @ ''dt.datetime | dt.timedelta | Weekday | dt.time''"

section \<open>Jobs\<close>

text \<open>
  Modelled from the spec: the class \<^verbatim>\<open>Job\<close> of \<^verbatim>\<open>scheduler.job\<close>, which is not among
  the sources. A job stores the properties given at construction (section 3 of the
  spec), the count of executions so far and the cached next-due instant. The callback
  and its payload are opaque; the callback is a number naming it.
\<close>

record Job =
  j_type :: JobType
  j_timing :: "pyval list"
  j_handle :: nat
  j_tzinfo :: tz
  j_max_attempts :: int
  j_attempts :: int
  j_tags :: "string set"
  j_weight :: real
  j_delay :: bool
  j_start :: "(instant \<times> tz) option"
  j_stop :: "(instant \<times> tz) option"
  j_pending :: instant

text \<open>The job properties passed as keyword arguments to the registration methods.\<close>

record kwargs =
  kw_max_attempts :: int
  kw_tags :: "string set"
  kw_weight :: real
  kw_delay :: bool
  kw_start :: "(instant \<times> tz) option"
  kw_stop :: "(instant \<times> tz) option"

datatype timing_alias = TimingCyclic | TimingDailyUnion | TimingWeeklyUnion | TimingOnceUnion

text \<open>
  What \<^verbatim>\<open>core.py\<close> uses and cannot be read from the sources is a parameter of the model.
  From \<^verbatim>\<open>scheduler.job\<close> and \<^verbatim>\<open>typeguard\<close>: the result of \<^verbatim>\<open>check_type\<close> against the timing type
  aliases, the message constants, the validation done by the constructor of a job
  (\<open>None\<close> when it accepts), the default properties of a job, and the due-time rule of
  the disciplines (section 4.1 of the spec), at construction and after an execution.
  From Python: \<^verbatim>\<open>timedelta.total_seconds\<close>, the float that Python computes for a number of
  microseconds, read as the real number it denotes. From the caller: whether the
  callback of a job, invoked on the job as it is, raises an exception.
\<close>

record environment =
  check_type :: "pyval \<Rightarrow> timing_alias \<Rightarrow> bool"
  CYCLIC_TYPE_ERROR_MSG :: string
  MINUTELY_TYPE_ERROR_MSG :: string
  HOURLY_TYPE_ERROR_MSG :: string
  DAILY_TYPE_ERROR_MSG :: string
  WEEKLY_TYPE_ERROR_MSG :: string
  TZ_ERROR_MSG :: string
  validate :: "Job \<Rightarrow> error option"
  defaults :: kwargs
  first_due :: "Job \<Rightarrow> instant"
  next_due :: "Job \<Rightarrow> instant \<Rightarrow> instant"
  total_seconds :: "int \<Rightarrow> real"
  callback_raises :: "Job \<Rightarrow> bool"

text \<open>Modelled from the spec: the constructor of \<^verbatim>\<open>Job\<close> validates, then stores its arguments.\<close>

definition Job_init ::
  "environment \<Rightarrow> JobType \<Rightarrow> pyval list \<Rightarrow> nat \<Rightarrow> tz \<Rightarrow> kwargs \<Rightarrow> error + Job" where
  "Job_init M job_type timing handle tzinfo kw =
     (let job = \<lparr>j_type = job_type, j_timing = timing, j_handle = handle, j_tzinfo = tzinfo,
                 j_max_attempts = kw_max_attempts kw, j_attempts = 0, j_tags = kw_tags kw,
                 j_weight = kw_weight kw, j_delay = kw_delay kw, j_start = kw_start kw,
                 j_stop = kw_stop kw, j_pending = 0\<rparr>
      in case validate M job of
           Some e \<Rightarrow> Inl e
         | None \<Rightarrow> Inr (job\<lparr>j_pending := first_due M job\<rparr>))"

text \<open>Modelled from the spec: \<^verbatim>\<open>Job.has_attempts_remaining\<close> (section 4.1).\<close>

definition has_attempts_remaining :: "Job \<Rightarrow> bool" where
  "has_attempts_remaining job \<longleftrightarrow> j_max_attempts job = 0 \<or> j_attempts job < j_max_attempts job"

text \<open>
  Modelled from the spec: \<^verbatim>\<open>Job.timedelta\<close> is the cached next-due instant minus the
  reference instant.
\<close>

definition timedelta :: "Job \<Rightarrow> instant \<Rightarrow> int" where
  "timedelta job dt_stamp = j_pending job - dt_stamp"

text \<open>
  Modelled from the spec: \<^verbatim>\<open>Job._exec\<close> invokes the callback and then counts the execution;
  an exception of the callback is not caught (sections 4.1 and 7 of the spec), so the
  execution is then not counted. \<^verbatim>\<open>Job._calc_next_exec\<close> recomputes and caches the next-due
  instant.
\<close>

definition executed :: "Job \<Rightarrow> Job" where
  "executed job = job\<lparr>j_attempts := j_attempts job + 1\<rparr>"

definition Job_exec :: "environment \<Rightarrow> Job \<Rightarrow> error + Job" where
  "Job_exec M job = (if callback_raises M job then Inl CallbackError else Inr (executed job))"

definition calc_next_exec :: "environment \<Rightarrow> Job \<Rightarrow> instant \<Rightarrow> Job" where
  "calc_next_exec M job ref_dt = job\<lparr>j_pending := next_due M job ref_dt\<rparr>"

section \<open>The store and the scheduler\<close>

text \<open>
  A Python set of jobs is a duplicate-free list of references, in the order in which the
  interpreter iterates over it. The store holds the set objects and the job objects, each
  with the next unused reference, and the log of callback invocations.
\<close>

record heap =
  sets :: "set_ref \<Rightarrow> job_ref list"
  next_set :: set_ref
  objs :: "job_ref \<Rightarrow> Job"
  next_job :: job_ref
  exec_log :: "job_ref list"

text \<open>
  The attributes of a \<^verbatim>\<open>Scheduler\<close>; \<open>s_jobs\<close> is the reference held in \<^verbatim>\<open>self.__jobs\<close>.
  The number of worker threads is a natural number. The locks and the rendered timezone
  name are left out.
\<close>

record Scheduler =
  s_max_exec :: int
  s_tzinfo :: tz
  s_priority_function :: "real \<Rightarrow> Job \<Rightarrow> int \<Rightarrow> nat \<Rightarrow> real"
  s_jobs :: set_ref
  s_n_threads :: nat

definition new_set :: "job_ref list \<Rightarrow> heap \<Rightarrow> set_ref \<times> heap" where
  "new_set xs h = (next_set h, h\<lparr>sets := (sets h)(next_set h := xs), next_set := Suc (next_set h)\<rparr>)"

definition set_add :: "heap \<Rightarrow> set_ref \<Rightarrow> job_ref \<Rightarrow> heap" where
  "set_add h a job =
     (if job \<in> set (sets h a) then h else h\<lparr>sets := (sets h)(a := sets h a @ [job])\<rparr>)"

definition set_remove :: "heap \<Rightarrow> set_ref \<Rightarrow> job_ref \<Rightarrow> (error + unit) \<times> heap" where
  "set_remove h a job =
     (if job \<in> set (sets h a) then (Inr (), h\<lparr>sets := (sets h)(a := remove1 job (sets h a))\<rparr>)
      else (Inl KeyError, h))"

text \<open>The jobs registered with a scheduler: the contents of the set \<^verbatim>\<open>self.__jobs\<close>.\<close>

definition registered :: "Scheduler \<Rightarrow> heap \<Rightarrow> job_ref list" where
  "registered sch h = sets h (s_jobs sch)"

definition select_jobs_by_tag :: "heap \<Rightarrow> job_ref list \<Rightarrow> string set \<Rightarrow> bool \<Rightarrow> job_ref list" where
  "select_jobs_by_tag h jobs tags any_tag =
     (if any_tag then filter (\<lambda>job. tags \<inter> j_tags (objs h job) \<noteq> {}) jobs
      else filter (\<lambda>job. tags \<subseteq> j_tags (objs h job)) jobs)"

text \<open>
  \<^verbatim>\<open>tags == {}\<close> compares a set with the empty dictionary \<^verbatim>\<open>{}\<close>; Python never finds a
  set equal to a dictionary, the empty set included.
\<close>

definition eq_empty_dict :: "string set \<Rightarrow> bool" where
  "eq_empty_dict tags = False"

definition Scheduler_init ::
  "environment \<Rightarrow> heap \<Rightarrow> int \<Rightarrow> tz \<Rightarrow> (real \<Rightarrow> Job \<Rightarrow> int \<Rightarrow> nat \<Rightarrow> real) \<Rightarrow> set_ref option \<Rightarrow> nat
     \<Rightarrow> (error + Scheduler) \<times> heap" where
  "Scheduler_init M h max_exec tzinfo priority_function jobs n_threads =
     (let (a, h1) = (case jobs of
                       None \<Rightarrow> new_set [] h
                     | Some r \<Rightarrow> if sets h r = [] then new_set [] h else (r, h))
      in case find (\<lambda>job. j_tzinfo (objs h1 job) \<noteq> tzinfo) (sets h1 a) of
           Some job \<Rightarrow> (Inl (SchedulerError (TZ_ERROR_MSG M)), h1)
         | None \<Rightarrow> (Inr \<lparr>s_max_exec = max_exec, s_tzinfo = tzinfo,
                         s_priority_function = priority_function, s_jobs = a,
                         s_n_threads = n_threads\<rparr>, h1))"

definition delete_job :: "Scheduler \<Rightarrow> heap \<Rightarrow> job_ref \<Rightarrow> (error + unit) \<times> heap" where
  "delete_job sch h job = set_remove h (s_jobs sch) job"

definition delete_jobs ::
  "Scheduler \<Rightarrow> heap \<Rightarrow> string set option \<Rightarrow> bool \<Rightarrow> nat \<times> Scheduler \<times> heap" where
  "delete_jobs sch h tags any_tag =
     (if tags = None \<or> eq_empty_dict (the tags) then
        (let n_jobs = length (registered sch h);
             (a, h1) = new_set [] h
         in (n_jobs, sch\<lparr>s_jobs := a\<rparr>, h1))
      else
        (let to_delete = select_jobs_by_tag h (registered sch h) (the tags) any_tag;
             (a, h1) = new_set (filter (\<lambda>job. job \<notin> set to_delete) (registered sch h)) h
         in (length to_delete, sch\<lparr>s_jobs := a\<rparr>, h1)))"

definition get_jobs :: "Scheduler \<Rightarrow> heap \<Rightarrow> string set option \<Rightarrow> bool \<Rightarrow> set_ref \<times> heap" where
  "get_jobs sch h tags any_tag =
     (if tags = None \<or> eq_empty_dict (the tags) then new_set (registered sch h) h
      else new_set (select_jobs_by_tag h (registered sch h) (the tags) any_tag) h)"

definition jobs_property :: "Scheduler \<Rightarrow> heap \<Rightarrow> set_ref \<times> heap" where
  "jobs_property sch h = new_set (registered sch h) h"

section \<open>Executing jobs\<close>

text \<open>
  \<^verbatim>\<open>job._exec()\<close> on the job object behind a reference; the invocation of the callback is
  recorded in the log, whether the callback returns or raises.
\<close>

definition exec_one :: "environment \<Rightarrow> job_ref \<Rightarrow> heap \<Rightarrow> (error + unit) \<times> heap" where
  "exec_one M job h =
     (case Job_exec M (objs h job) of
        Inl e \<Rightarrow> (Inl e, h\<lparr>exec_log := exec_log h @ [job]\<rparr>)
      | Inr job' \<Rightarrow> (Inr (), h\<lparr>objs := (objs h)(job := job'), exec_log := exec_log h @ [job]\<rparr>))"

text \<open>The first loop of \<^verbatim>\<open>__exec_jobs\<close> for one thread: an exception leaves the loop.\<close>

fun exec_inline :: "environment \<Rightarrow> job_ref list \<Rightarrow> heap \<Rightarrow> (error + unit) \<times> heap" where
  "exec_inline M [] h = (Inr (), h)"
| "exec_inline M (job # jobs) h =
     (case exec_one M job h of
        (Inl e, h1) \<Rightarrow> (Inl e, h1)
      | (Inr u, h1) \<Rightarrow> exec_inline M jobs h1)"

text \<open>
  The pool of workers, each running \<^verbatim>\<open>__exec_job_worker\<close>: take jobs from the queue until
  it is empty. The workers share one first-in first-out queue, and the pool is read as
  the run in which each job taken from the queue is executed before the next one is
  taken. A worker whose job raises ends without \<^verbatim>\<open>task_done\<close>; \<open>n\<close> is the number of
  workers still running. The result says whether every job of the queue was taken and
  marked done, which is when \<^verbatim>\<open>que.join()\<close> returns.
\<close>

fun exec_job_workers :: "environment \<Rightarrow> nat \<Rightarrow> job_ref list \<Rightarrow> heap \<Rightarrow> bool \<times> heap" where
  "exec_job_workers M n [] h = (True, h)"
| "exec_job_workers M 0 (job # que) h = (False, h)"
| "exec_job_workers M (Suc n) (job # que) h =
     (case exec_one M job h of
        (Inl e, h1) \<Rightarrow> (False, snd (exec_job_workers M n que h1))
      | (Inr u, h1) \<Rightarrow> exec_job_workers M (Suc n) que h1)"

text \<open>The second loop of \<^verbatim>\<open>__exec_jobs\<close>; a failing \<^verbatim>\<open>delete_job\<close> ends it.\<close>

fun recalc_jobs ::
  "environment \<Rightarrow> Scheduler \<Rightarrow> instant \<Rightarrow> job_ref list \<Rightarrow> heap \<Rightarrow> (error + unit) \<times> heap" where
  "recalc_jobs M sch ref_dt [] h = (Inr (), h)"
| "recalc_jobs M sch ref_dt (job # jobs) h =
     (let h1 = h\<lparr>objs := (objs h)(job := calc_next_exec M (objs h job) ref_dt)\<rparr>
      in if \<not> has_attempts_remaining (objs h1 job) then
           (case delete_job sch h1 job of
              (Inl e, h2) \<Rightarrow> (Inl e, h2)
            | (Inr u, h2) \<Rightarrow> recalc_jobs M sch ref_dt jobs h2)
         else recalc_jobs M sch ref_dt jobs h1)"

text \<open>
  \<^verbatim>\<open>__exec_jobs\<close>. With one thread an exception of a callback leaves the method; with a
  pool the exception ends a worker and \<^verbatim>\<open>que.join()\<close> waits forever. In both cases the
  second loop is not reached.
\<close>

definition private_exec_jobs ::
  "environment \<Rightarrow> Scheduler \<Rightarrow> heap \<Rightarrow> job_ref list \<Rightarrow> instant \<Rightarrow> nat outcome \<times> heap" where
  "private_exec_jobs M sch h jobs ref_dt =
     (let n_jobs = length jobs;
          (done, h1) =
            (if s_n_threads sch = 1 then
               (case exec_inline M jobs h of
                  (Inl e, h1) \<Rightarrow> (Raises e, h1)
                | (Inr u, h1) \<Rightarrow> (Returns (), h1))
             else
               (case exec_job_workers M
                       (if s_n_threads sch = 0 then n_jobs else s_n_threads sch) jobs h of
                  (False, h1) \<Rightarrow> (Blocks, h1)
                | (True, h1) \<Rightarrow> (Returns (), h1)))
      in case done of
           Raises e \<Rightarrow> (Raises e, h1)
         | Blocks \<Rightarrow> (Blocks, h1)
         | Returns u \<Rightarrow>
             (case recalc_jobs M sch ref_dt jobs h1 of
                (Inl e, h2) \<Rightarrow> (Raises e, h2)
              | (Inr u, h2) \<Rightarrow> (Returns n_jobs, h2)))"

definition job_priority :: "environment \<Rightarrow> Scheduler \<Rightarrow> heap \<Rightarrow> instant \<Rightarrow> job_ref \<Rightarrow> real" where
  "job_priority M sch h ref_dt job =
     (let delta_seconds = total_seconds M (timedelta (objs h job) ref_dt)
      in s_priority_function sch (- delta_seconds) (objs h job) (s_max_exec sch)
           (length (registered sch h)))"

text \<open>
  \<^verbatim>\<open>sorted(xs, key=key, reverse=True)\<close>: Python reverses the list, sorts it with its stable
  sort and reverses the result, so that items with equal keys keep their order.
\<close>

definition sorted_reverse :: "('a \<Rightarrow> real) \<Rightarrow> 'a list \<Rightarrow> 'a list" where
  "sorted_reverse key xs = rev (sort_key key (rev xs))"

definition sorted_jobs :: "environment \<Rightarrow> Scheduler \<Rightarrow> heap \<Rightarrow> instant \<Rightarrow> job_ref list" where
  "sorted_jobs M sch h ref_dt = sorted_reverse (job_priority M sch h ref_dt) (registered sch h)"

definition filtered_jobs :: "environment \<Rightarrow> Scheduler \<Rightarrow> heap \<Rightarrow> instant \<Rightarrow> job_ref list" where
  "filtered_jobs M sch h ref_dt =
     map snd (filter (\<lambda>(idx, job). (s_max_exec sch = 0 \<or> int idx < s_max_exec sch)
                                   \<and> job_priority M sch h ref_dt job > 0)
                (enumerate 0 (sorted_jobs M sch h ref_dt)))"

text \<open>
  \<^verbatim>\<open>exec_jobs\<close>; \<open>ref_dt\<close> is the value of the one call of \<^verbatim>\<open>dt.datetime.now\<close> at its start.
\<close>

definition exec_jobs ::
  "environment \<Rightarrow> Scheduler \<Rightarrow> heap \<Rightarrow> instant \<Rightarrow> bool \<Rightarrow> nat outcome \<times> heap" where
  "exec_jobs M sch h ref_dt force_exec_all =
     (if force_exec_all then private_exec_jobs M sch h (registered sch h) ref_dt
      else private_exec_jobs M sch h (filtered_jobs M sch h ref_dt) ref_dt)"

text \<open>A caller driving the scheduler: one call of \<^verbatim>\<open>exec_jobs\<close> for each clock reading.\<close>

fun run_ticks :: "environment \<Rightarrow> Scheduler \<Rightarrow> heap \<Rightarrow> (instant \<times> bool) list \<Rightarrow> heap" where
  "run_ticks M sch h [] = h"
| "run_ticks M sch h ((ref_dt, force_exec_all) # ticks) =
     run_ticks M sch (snd (exec_jobs M sch h ref_dt force_exec_all)) ticks"

section \<open>Registering jobs\<close>

definition private_schedule ::
  "environment \<Rightarrow> Scheduler \<Rightarrow> heap \<Rightarrow> JobType \<Rightarrow> pyval \<Rightarrow> nat \<Rightarrow> kwargs \<Rightarrow> (error + job_ref) \<times> heap" where
  "private_schedule M sch h job_type timing handle kw =
     (let timing_list = (case timing of PyList vs \<Rightarrow> vs | _ \<Rightarrow> [timing])
      in case Job_init M job_type timing_list handle (s_tzinfo sch) kw of
           Inl e \<Rightarrow> (Inl e, h)
         | Inr job \<Rightarrow>
             (let r = next_job h;
                  h1 = h\<lparr>objs := (objs h)(r := job), next_job := Suc r\<rparr>
              in if has_attempts_remaining job then (Inr r, set_add h1 (s_jobs sch) r)
                 else (Inr r, h1)))"

definition cyclic ::
  "environment \<Rightarrow> Scheduler \<Rightarrow> heap \<Rightarrow> pyval \<Rightarrow> nat \<Rightarrow> kwargs \<Rightarrow> (error + job_ref) \<times> heap" where
  "cyclic M sch h timing handle kw =
     (if \<not> check_type M timing TimingCyclic then (Inl (SchedulerError (CYCLIC_TYPE_ERROR_MSG M)), h)
      else private_schedule M sch h CYCLIC timing handle kw)"

definition minutely ::
  "environment \<Rightarrow> Scheduler \<Rightarrow> heap \<Rightarrow> pyval \<Rightarrow> nat \<Rightarrow> kwargs \<Rightarrow> (error + job_ref) \<times> heap" where
  "minutely M sch h timing handle kw =
     (if \<not> check_type M timing TimingDailyUnion then
        (Inl (SchedulerError (MINUTELY_TYPE_ERROR_MSG M)), h)
      else private_schedule M sch h MINUTELY timing handle kw)"

definition hourly ::
  "environment \<Rightarrow> Scheduler \<Rightarrow> heap \<Rightarrow> pyval \<Rightarrow> nat \<Rightarrow> kwargs \<Rightarrow> (error + job_ref) \<times> heap" where
  "hourly M sch h timing handle kw =
     (if \<not> check_type M timing TimingDailyUnion then
        (Inl (SchedulerError (HOURLY_TYPE_ERROR_MSG M)), h)
      else private_schedule M sch h HOURLY timing handle kw)"

definition daily ::
  "environment \<Rightarrow> Scheduler \<Rightarrow> heap \<Rightarrow> pyval \<Rightarrow> nat \<Rightarrow> kwargs \<Rightarrow> (error + job_ref) \<times> heap" where
  "daily M sch h timing handle kw =
     (if \<not> check_type M timing TimingDailyUnion then (Inl (SchedulerError (DAILY_TYPE_ERROR_MSG M)), h)
      else private_schedule M sch h DAILY timing handle kw)"

definition weekly ::
  "environment \<Rightarrow> Scheduler \<Rightarrow> heap \<Rightarrow> pyval \<Rightarrow> nat \<Rightarrow> kwargs \<Rightarrow> (error + job_ref) \<times> heap" where
  "weekly M sch h timing handle kw =
     (if \<not> check_type M timing TimingWeeklyUnion then
        (Inl (SchedulerError (WEEKLY_TYPE_ERROR_MSG M)), h)
      else private_schedule M sch h WEEKLY timing handle kw)"

text \<open>
  \<^verbatim>\<open>once\<close> passes \<^verbatim>\<open>max_attempts\<close>, \<^verbatim>\<open>tags\<close> and \<^verbatim>\<open>weight\<close> (and, for a datetime, \<^verbatim>\<open>delay\<close> and
  \<^verbatim>\<open>start\<close>) to the constructor of the job and leaves the other properties to its
  defaults; \<^verbatim>\<open>tags=None\<close> is the default too. A class that is not a key of
  \<^verbatim>\<open>JOB_TYPE_MAPPING\<close> raises \<^verbatim>\<open>KeyError\<close>.
\<close>

definition once ::
  "environment \<Rightarrow> Scheduler \<Rightarrow> heap \<Rightarrow> pyval \<Rightarrow> nat \<Rightarrow> string list option \<Rightarrow> real
     \<Rightarrow> (error + job_ref) \<times> heap" where
  "once M sch h timing handle tags weight =
     (let tag_set = (case tags of None \<Rightarrow> kw_tags (defaults M) | Some ts \<Rightarrow> set ts)
      in if \<not> check_type M timing TimingOnceUnion then
           (Inl (SchedulerError ONCE_TYPE_ERROR_MSG), h)
         else
           (case timing of
              Datetime t z \<Rightarrow>
                private_schedule M sch h CYCLIC (Timedelta 0) handle
                  ((defaults M)\<lparr>kw_max_attempts := 1, kw_tags := tag_set, kw_weight := weight,
                                 kw_delay := False, kw_start := Some (t, z)\<rparr>)
            | _ \<Rightarrow>
                (case JOB_TYPE_MAPPING (type_of timing) of
                   None \<Rightarrow> (Inl KeyError, h)
                 | Some job_type \<Rightarrow>
                     private_schedule M sch h job_type timing handle
                       ((defaults M)\<lparr>kw_max_attempts := 1, kw_tags := tag_set,
                                      kw_weight := weight\<rparr>))))"

section \<open>Well-formed stores\<close>

text \<open>
  The set held by the scheduler is an allocated object, it has no duplicates, and its
  members are allocated jobs.
\<close>

definition well_formed :: "Scheduler \<Rightarrow> heap \<Rightarrow> bool" where
  "well_formed sch h \<longleftrightarrow>
     s_jobs sch < next_set h \<and> distinct (registered sch h)
     \<and> list_all (\<lambda>job. job < next_job h) (registered sch h)"

text \<open>The members of the set object that a call returned.\<close>

definition returned :: "set_ref \<times> heap \<Rightarrow> job_ref set" where
  "returned r = set (sets (snd r) (fst r))"

section \<open>What one call and a run of calls do to the store\<close>

text \<open>The list that \<^verbatim>\<open>exec_jobs\<close> hands to \<^verbatim>\<open>__exec_jobs\<close>.\<close>

definition selected_jobs :: "environment \<Rightarrow> Scheduler \<Rightarrow> heap \<Rightarrow> instant \<Rightarrow> bool \<Rightarrow> job_ref list" where
  "selected_jobs M sch h ref_dt force_exec_all =
     (if force_exec_all then registered sch h else filtered_jobs M sch h ref_dt)"

text \<open>The effect of \<^verbatim>\<open>job._exec()\<close> when the callback returns.\<close>

definition exec_ok :: "job_ref \<Rightarrow> heap \<Rightarrow> heap" where
  "exec_ok job h =
     h\<lparr>objs := (objs h)(job := executed (objs h job)), exec_log := exec_log h @ [job]\<rparr>"

text \<open>The callbacks of these jobs return when invoked in this store.\<close>

definition callbacks_return :: "environment \<Rightarrow> heap \<Rightarrow> job_ref list \<Rightarrow> bool" where
  "callbacks_return M h jobs \<longleftrightarrow> list_all (\<lambda>job. \<not> callback_raises M (objs h job)) jobs"

text \<open>In every call of a run, the callbacks of the jobs handed to \<^verbatim>\<open>__exec_jobs\<close> return.\<close>

fun run_returns :: "environment \<Rightarrow> Scheduler \<Rightarrow> heap \<Rightarrow> (instant \<times> bool) list \<Rightarrow> bool" where
  "run_returns M sch h [] = True"
| "run_returns M sch h ((ref_dt, force_exec_all) # ticks) =
     (callbacks_return M h (selected_jobs M sch h ref_dt force_exec_all)
      \<and> run_returns M sch (snd (exec_jobs M sch h ref_dt force_exec_all)) ticks)"

text \<open>The jobs whose callbacks were invoked between two stores, in the order of the log.\<close>

definition dispatched :: "heap \<Rightarrow> heap \<Rightarrow> job_ref list" where
  "dispatched h h' = drop (length (exec_log h)) (exec_log h')"

text \<open>The store after the second loop of \<^verbatim>\<open>__exec_jobs\<close> over \<open>jobs\<close>.\<close>

definition recalc_post ::
  "environment \<Rightarrow> Scheduler \<Rightarrow> instant \<Rightarrow> job_ref list \<Rightarrow> heap \<Rightarrow> heap \<Rightarrow> bool" where
  "recalc_post M sch ref_dt jobs h h' \<longleftrightarrow>
     sets h' = (sets h)(s_jobs sch :=
                 filter (\<lambda>j. j \<notin> set jobs \<or> has_attempts_remaining (objs h j))
                   (sets h (s_jobs sch)))
   \<and> objs h' = (\<lambda>j. if j \<in> set jobs then calc_next_exec M (objs h j) ref_dt else objs h j)
   \<and> next_set h' = next_set h \<and> next_job h' = next_job h \<and> exec_log h' = exec_log h"

text \<open>The store after \<^verbatim>\<open>__exec_jobs\<close> has run \<open>jobs\<close>.\<close>

definition tick_post ::
  "environment \<Rightarrow> Scheduler \<Rightarrow> instant \<Rightarrow> job_ref list \<Rightarrow> heap \<Rightarrow> heap \<Rightarrow> bool" where
  "tick_post M sch ref_dt jobs h h' \<longleftrightarrow>
     sets h' = (sets h)(s_jobs sch :=
                 filter (\<lambda>j. j \<notin> set jobs \<or> has_attempts_remaining (executed (objs h j)))
                   (sets h (s_jobs sch)))
   \<and> objs h' = (\<lambda>j. if j \<in> set jobs then calc_next_exec M (executed (objs h j)) ref_dt
                     else objs h j)
   \<and> next_set h' = next_set h \<and> next_job h' = next_job h \<and> exec_log h' = exec_log h @ jobs"

text \<open>
  What the execution of \<open>jobs\<close> keeps whether or not a callback raises: no object is
  allocated, no job is added to the set of the scheduler, no timezone changes, and
  only callbacks of \<open>jobs\<close> are invoked.
\<close>

definition keeps :: "Scheduler \<Rightarrow> job_ref list \<Rightarrow> heap \<Rightarrow> heap \<Rightarrow> bool" where
  "keeps sch jobs h h' \<longleftrightarrow>
     next_set h' = next_set h \<and> next_job h' = next_job h
   \<and> set (registered sch h') \<subseteq> set (registered sch h)
   \<and> (distinct (registered sch h) \<longrightarrow> distinct (registered sch h'))
   \<and> (\<forall>j. j_tzinfo (objs h' j) = j_tzinfo (objs h j))
   \<and> exec_log h' = exec_log h @ dispatched h h'
   \<and> set (dispatched h h') \<subseteq> set jobs"

text \<open>
  What a run of calls of \<^verbatim>\<open>exec_jobs\<close> keeps true of one job: its executions are counted,
  and while it is registered after having been dispatched it has attempts remaining.
\<close>

definition progress :: "Scheduler \<Rightarrow> job_ref \<Rightarrow> heap \<Rightarrow> heap \<Rightarrow> bool" where
  "progress sch job h h' \<longleftrightarrow>
     well_formed sch h'
   \<and> exec_log h' = exec_log h @ dispatched h h'
   \<and> j_max_attempts (objs h' job) = j_max_attempts (objs h job)
   \<and> j_attempts (objs h' job) = j_attempts (objs h job) + int (count_list (dispatched h h') job)
   \<and> (job \<in> set (registered sch h') \<longrightarrow>
        job \<in> set (registered sch h)
        \<and> (count_list (dispatched h h') job = 0 \<or> has_attempts_remaining (objs h' job)))"

section \<open>A caller using the scheduler\<close>

text \<open>The jobs of the set given to the constructor, and what makes that set a set of jobs.\<close>

definition supplied_jobs :: "heap \<Rightarrow> set_ref option \<Rightarrow> job_ref list" where
  "supplied_jobs h jobs = (case jobs of None \<Rightarrow> [] | Some a \<Rightarrow> sets h a)"

definition supplied_ok :: "heap \<Rightarrow> set_ref option \<Rightarrow> bool" where
  "supplied_ok h jobs \<longleftrightarrow>
     (case jobs of
        None \<Rightarrow> True
      | Some a \<Rightarrow> a < next_set h \<and> distinct (sets h a) \<and> list_all (\<lambda>job. job < next_job h) (sets h a))"

text \<open>Every registered job has the timezone of the scheduler.\<close>

definition tz_ok :: "Scheduler \<Rightarrow> heap \<Rightarrow> bool" where
  "tz_ok sch h \<longleftrightarrow> list_all (\<lambda>job. j_tzinfo (objs h job) = s_tzinfo sch) (registered sch h)"

text \<open>The calls a caller can make on a scheduler, and their effect on scheduler and store.\<close>

datatype call =
    Exec_jobs instant bool
  | Delete_job job_ref
  | Delete_jobs "string set option" bool
  | Get_jobs "string set option" bool
  | Jobs
  | Cyclic pyval nat kwargs
  | Minutely pyval nat kwargs
  | Hourly pyval nat kwargs
  | Daily pyval nat kwargs
  | Weekly pyval nat kwargs
  | Once pyval nat "string list option" real

fun do_call :: "environment \<Rightarrow> call \<Rightarrow> Scheduler \<times> heap \<Rightarrow> Scheduler \<times> heap" where
  "do_call M (Exec_jobs ref_dt force_exec_all) (sch, h) = (sch, snd (exec_jobs M sch h ref_dt force_exec_all))"
| "do_call M (Delete_job job) (sch, h) = (sch, snd (delete_job sch h job))"
| "do_call M (Delete_jobs tags any_tag) (sch, h) = snd (delete_jobs sch h tags any_tag)"
| "do_call M (Get_jobs tags any_tag) (sch, h) = (sch, snd (get_jobs sch h tags any_tag))"
| "do_call M Jobs (sch, h) = (sch, snd (jobs_property sch h))"
| "do_call M (Cyclic timing handle kw) (sch, h) = (sch, snd (cyclic M sch h timing handle kw))"
| "do_call M (Minutely timing handle kw) (sch, h) = (sch, snd (minutely M sch h timing handle kw))"
| "do_call M (Hourly timing handle kw) (sch, h) = (sch, snd (hourly M sch h timing handle kw))"
| "do_call M (Daily timing handle kw) (sch, h) = (sch, snd (daily M sch h timing handle kw))"
| "do_call M (Weekly timing handle kw) (sch, h) = (sch, snd (weekly M sch h timing handle kw))"
| "do_call M (Once timing handle tags weight) (sch, h) = (sch, snd (once M sch h timing handle tags weight))"

definition sch_inv :: "Scheduler \<times> heap \<Rightarrow> bool" where
  "sch_inv s \<longleftrightarrow> well_formed (fst s) (snd s) \<and> tz_ok (fst s) (snd s)"

section \<open>A concrete scheduler\<close>

text \<open>
  An instance of the parameters, used to run the model: the timing aliases accept what
  section 3 of the spec lists for each discipline, the constructor of a job accepts
  every job, and a job is due again one second after the reference instant.
\<close>

fun ex_check_type :: "pyval \<Rightarrow> timing_alias \<Rightarrow> bool" where
  "ex_check_type (Timedelta d) TimingCyclic = True"
| "ex_check_type (Time t z) TimingDailyUnion = True"
| "ex_check_type (PyList vs) TimingDailyUnion = list_all (\<lambda>v. type_of v = T_time) vs"
| "ex_check_type (Trigger w) TimingWeeklyUnion = True"
| "ex_check_type (Datetime t z) TimingOnceUnion = True"
| "ex_check_type (Timedelta d) TimingOnceUnion = True"
| "ex_check_type (Time t z) TimingOnceUnion = True"
| "ex_check_type (Trigger w) TimingOnceUnion = True"
| "ex_check_type v a = False"

definition ex_env :: environment where
  "ex_env =
     \<lparr>check_type = ex_check_type,
      CYCLIC_TYPE_ERROR_MSG = ''cyclic'', MINUTELY_TYPE_ERROR_MSG = ''minutely'',
      HOURLY_TYPE_ERROR_MSG = ''hourly'', DAILY_TYPE_ERROR_MSG = ''daily'',
      WEEKLY_TYPE_ERROR_MSG = ''weekly'', TZ_ERROR_MSG = ''tz'',
      validate = (\<lambda>job. None),
      defaults = \<lparr>kw_max_attempts = 0, kw_tags = {}, kw_weight = 1, kw_delay = True,
                  kw_start = None, kw_stop = None\<rparr>,
      first_due = (\<lambda>job. 0),
      next_due = (\<lambda>job ref_dt. ref_dt + 1000000),
      total_seconds = (\<lambda>d. real_of_int d / 1000000),
      callback_raises = (\<lambda>job. False)\<rparr>"

text \<open>The same surroundings, with a callback that raises for the job of weight 10.\<close>

definition ex_env_raising :: environment where
  "ex_env_raising = ex_env\<lparr>callback_raises := (\<lambda>job. j_weight job = 10)\<rparr>"

definition ex_priority :: "real \<Rightarrow> Job \<Rightarrow> int \<Rightarrow> nat \<Rightarrow> real" where
  "ex_priority seconds job max_exec n = (if seconds < 0 then 0 else (seconds + 1) * j_weight job)"

definition ex_job :: "int \<Rightarrow> string set \<Rightarrow> real \<Rightarrow> instant \<Rightarrow> Job" where
  "ex_job n ts w due =
     \<lparr>j_type = CYCLIC, j_timing = [Timedelta 1000000], j_handle = 0, j_tzinfo = None,
      j_max_attempts = n, j_attempts = 0, j_tags = ts, j_weight = w, j_delay = True,
      j_start = None, j_stop = None, j_pending = due\<rparr>"

text \<open>
  Four jobs in the set object 3: jobs 4, 5 and 6 are due at instant 0, with weights 1, 5
  and 10, and job 7 is due at 9 seconds.
\<close>

definition ex_heap :: heap where
  "ex_heap =
     \<lparr>sets = (\<lambda>a. [])(3 := [4, 5, 6, 7]),
      next_set = 4,
      objs = (\<lambda>r. ex_job 0 {} 1 0)
               (4 := ex_job 1 {''a''} 1 0, 5 := ex_job 2 {''a'', ''b''} 5 0,
                6 := ex_job 0 {''b''} 10 0, 7 := ex_job 0 {} 1 9000000),
      next_job = 8,
      exec_log = []\<rparr>"

definition ex_sch :: Scheduler where
  "ex_sch = \<lparr>s_max_exec = 2, s_tzinfo = None, s_priority_function = ex_priority, s_jobs = 3,
             s_n_threads = 1\<rparr>"

section \<open>Sets, selection by tag and deletion\<close>

lemma new_set_simps:
  "fst (new_set xs h) = next_set h"
  "sets (snd (new_set xs h)) = (sets h)(next_set h := xs)"
  "objs (snd (new_set xs h)) = objs h"
  "next_set (snd (new_set xs h)) = Suc (next_set h)"
  "next_job (snd (new_set xs h)) = next_job h"
  "exec_log (snd (new_set xs h)) = exec_log h"
  by (simp_all add: new_set_def)

lemma set_select_jobs_by_tag:
  "set (select_jobs_by_tag h jobs tags any_tag) =
     {job \<in> set jobs. if any_tag then tags \<inter> j_tags (objs h job) \<noteq> {} else tags \<subseteq> j_tags (objs h job)}"
  by (auto simp: select_jobs_by_tag_def)

lemma get_jobs_returned:
  "returned (get_jobs sch h tags any_tag) =
     (case tags of
        None \<Rightarrow> set (registered sch h)
      | Some ts \<Rightarrow> {job \<in> set (registered sch h).
                     if any_tag then ts \<inter> j_tags (objs h job) \<noteq> {} else ts \<subseteq> j_tags (objs h job)})"
  by (cases tags) (simp_all add: get_jobs_def returned_def new_set_simps eq_empty_dict_def set_select_jobs_by_tag)

text \<open>
  What \<^verbatim>\<open>delete_jobs\<close> does for every input: it removes the jobs that the filter selects
  (all of them without tags), returns their number, and a second call returns 0.
\<close>

lemma delete_jobs_result:
  "(let to_delete = (case tags of
                       None \<Rightarrow> registered sch h
                     | Some ts \<Rightarrow> select_jobs_by_tag h (registered sch h) ts any_tag);
        r = delete_jobs sch h tags any_tag
    in fst r = length to_delete
       \<and> registered (fst (snd r)) (snd (snd r))
           = filter (\<lambda>job. job \<notin> set to_delete) (registered sch h)
       \<and> objs (snd (snd r)) = objs h
       \<and> fst (delete_jobs (fst (snd r)) (snd (snd r)) tags any_tag) = 0)"
proof (cases tags)
  case None
  then show ?thesis
    by (simp add: delete_jobs_def new_set_def registered_def Let_def)
next
  case (Some ts)
  have "select_jobs_by_tag h' (filter (\<lambda>job. job \<notin> set (select_jobs_by_tag h xs ts any_tag)) xs) ts any_tag = []"
    if "objs h' = objs h" for h' xs
    using that by (auto simp: select_jobs_by_tag_def filter_empty_conv)
  then show ?thesis
    using Some
    by (simp add: delete_jobs_def eq_empty_dict_def new_set_def registered_def Let_def)
qed

lemma remove1_filter:
  "distinct xs \<Longrightarrow> remove1 x xs = filter (\<lambda>j. j \<noteq> x) xs"
  by (induction xs) (auto simp: remove1_idem intro: sym [OF filter_True])

section \<open>One call of the execution of jobs\<close>

lemma exec_one_ok:
  "\<not> callback_raises M (objs h job) \<Longrightarrow> exec_one M job h = (Inr (), exec_ok job h)"
  by (simp add: exec_one_def Job_exec_def exec_ok_def)

lemma callbacks_return_exec_ok:
  "job \<notin> set jobs \<Longrightarrow> callbacks_return M (exec_ok job h) jobs = callbacks_return M h jobs"
  by (auto simp: callbacks_return_def exec_ok_def list_all_iff)

lemma exec_inline_ok:
  "distinct jobs \<Longrightarrow> callbacks_return M h jobs \<Longrightarrow>
   exec_inline M jobs h = (Inr (), fold exec_ok jobs h)"
proof (induction jobs arbitrary: h)
  case Nil
  then show ?case by simp
next
  case (Cons job jobs)
  from Cons.prems have r: "\<not> callback_raises M (objs h job)"
    and c: "callbacks_return M (exec_ok job h) jobs"
    by (simp_all add: callbacks_return_exec_ok) (simp_all add: callbacks_return_def)
  show ?case using Cons.IH [OF _ c] Cons.prems(1) by (simp add: exec_one_ok [OF r])
qed

lemma exec_job_workers_ok:
  "distinct jobs \<Longrightarrow> callbacks_return M h jobs \<Longrightarrow> jobs = [] \<or> 0 < n \<Longrightarrow>
   exec_job_workers M n jobs h = (True, fold exec_ok jobs h)"
proof (induction jobs arbitrary: h)
  case Nil
  then show ?case by simp
next
  case (Cons job jobs)
  from Cons.prems obtain m where n: "n = Suc m" by (cases n) auto
  from Cons.prems have r: "\<not> callback_raises M (objs h job)"
    and c: "callbacks_return M (exec_ok job h) jobs"
    by (simp_all add: callbacks_return_exec_ok) (simp_all add: callbacks_return_def)
  show ?case using Cons.IH [OF _ c] Cons.prems(1) by (simp add: n exec_one_ok [OF r])
qed

lemma fold_exec_one_frame:
  "sets (fold exec_ok jobs h) = sets h"
  "next_set (fold exec_ok jobs h) = next_set h"
  "next_job (fold exec_ok jobs h) = next_job h"
  "exec_log (fold exec_ok jobs h) = exec_log h @ jobs"
  by (induction jobs arbitrary: h) (simp_all add: exec_ok_def)

lemma fold_exec_one_objs:
  "distinct jobs \<Longrightarrow>
   objs (fold exec_ok jobs h) job = (if job \<in> set jobs then executed (objs h job) else objs h job)"
  by (induction jobs arbitrary: h) (auto simp: exec_ok_def)

lemma has_attempts_calc [simp]:
  "has_attempts_remaining (calc_next_exec M job ref_dt) = has_attempts_remaining job"
  by (simp add: has_attempts_remaining_def calc_next_exec_def)

lemma recalc_jobs_result:
  "distinct jobs \<Longrightarrow> set jobs \<subseteq> set (sets h (s_jobs sch)) \<Longrightarrow> distinct (sets h (s_jobs sch)) \<Longrightarrow>
   fst (recalc_jobs M sch ref_dt jobs h) = Inr ()
   \<and> recalc_post M sch ref_dt jobs h (snd (recalc_jobs M sch ref_dt jobs h))"
proof (induction jobs arbitrary: h)
  case Nil
  then show ?case by (simp add: recalc_post_def fun_eq_iff)
next
  case (Cons job jobs)
  let ?a = "s_jobs sch"
  define h1 where "h1 = h\<lparr>objs := (objs h)(job := calc_next_exec M (objs h job) ref_dt)\<rparr>"
  have h1: "sets h1 = sets h" "objs h1 = (objs h)(job := calc_next_exec M (objs h job) ref_dt)"
    "next_set h1 = next_set h" "next_job h1 = next_job h" "exec_log h1 = exec_log h"
    by (simp_all add: h1_def)
  from Cons.prems have nin: "job \<notin> set jobs" and dj: "distinct jobs"
    and sub: "set jobs \<subseteq> set (sets h ?a)" and mem: "job \<in> set (sets h ?a)"
    and dist: "distinct (sets h ?a)"
    by auto
  have ob: "(\<lambda>j. if j \<in> set jobs then calc_next_exec M (objs h1 j) ref_dt else objs h1 j)
      = (\<lambda>j. if j \<in> set (job # jobs) then calc_next_exec M (objs h j) ref_dt else objs h j)"
    using nin by (auto simp: fun_eq_iff h1)
  show ?case
  proof (cases "has_attempts_remaining (objs h job)")
    case True
    have step: "recalc_jobs M sch ref_dt (job # jobs) h = recalc_jobs M sch ref_dt jobs h1"
      using True by (simp add: Let_def h1_def)
    have ih: "fst (recalc_jobs M sch ref_dt jobs h1) = Inr ()"
      "recalc_post M sch ref_dt jobs h1 (snd (recalc_jobs M sch ref_dt jobs h1))"
      using Cons.IH [of h1] dj sub dist by (simp_all add: h1)
    have flt: "filter (\<lambda>j. j \<notin> set jobs \<or> has_attempts_remaining (objs h1 j)) (sets h ?a)
      = filter (\<lambda>j. j \<notin> set (job # jobs) \<or> has_attempts_remaining (objs h j)) (sets h ?a)"
      using True by (intro filter_cong) (auto simp: h1)
    have "recalc_post M sch ref_dt (job # jobs) h (snd (recalc_jobs M sch ref_dt jobs h1))"
      using ih(2) unfolding recalc_post_def h1(1,3,4,5) flt ob by blast
    then show ?thesis unfolding step using ih(1) by simp
  next
    case False
    define h2 where "h2 = h1\<lparr>sets := (sets h1)(?a := remove1 job (sets h1 ?a))\<rparr>"
    have h2: "sets h2 = (sets h)(?a := remove1 job (sets h ?a))" "objs h2 = objs h1"
      "next_set h2 = next_set h" "next_job h2 = next_job h" "exec_log h2 = exec_log h"
      by (simp_all add: h2_def h1)
    have del: "delete_job sch h1 job = (Inr (), h2)"
      using mem by (simp add: delete_job_def set_remove_def h1 h2_def)
    have step: "recalc_jobs M sch ref_dt (job # jobs) h = recalc_jobs M sch ref_dt jobs h2"
      using False del by (simp add: Let_def h1_def [symmetric] h1)
    have sub2: "set jobs \<subseteq> set (sets h2 ?a)" using sub nin dist by (auto simp: h2)
    have dist2: "distinct (sets h2 ?a)" using dist by (simp add: h2)
    have ih: "fst (recalc_jobs M sch ref_dt jobs h2) = Inr ()"
      "recalc_post M sch ref_dt jobs h2 (snd (recalc_jobs M sch ref_dt jobs h2))"
      using Cons.IH [of h2] dj sub2 dist2 by simp_all
    have flt: "filter (\<lambda>j. j \<notin> set jobs \<or> has_attempts_remaining (objs h1 j)) (remove1 job (sets h ?a))
      = filter (\<lambda>j. j \<notin> set (job # jobs) \<or> has_attempts_remaining (objs h j)) (sets h ?a)"
      using False dist by (simp add: remove1_filter) (intro filter_cong, auto simp: h1)
    have s2: "(sets h2)(?a := filter (\<lambda>j. j \<notin> set jobs \<or> has_attempts_remaining (objs h1 j)) (sets h2 ?a))
      = (sets h)(?a := filter (\<lambda>j. j \<notin> set (job # jobs) \<or> has_attempts_remaining (objs h j)) (sets h ?a))"
      using flt by (simp add: h2)
    have "recalc_post M sch ref_dt (job # jobs) h (snd (recalc_jobs M sch ref_dt jobs h2))"
      using ih(2) unfolding recalc_post_def h2(2,3,4,5) s2 ob by blast
    then show ?thesis unfolding step using ih(1) by simp
  qed
qed

lemma private_exec_jobs_result:
  assumes "distinct jobs" "set jobs \<subseteq> set (registered sch h)" "distinct (registered sch h)"
    and "callbacks_return M h jobs"
  shows "fst (private_exec_jobs M sch h jobs ref_dt) = Returns (length jobs)
       \<and> tick_post M sch ref_dt jobs h (snd (private_exec_jobs M sch h jobs ref_dt))"
proof -
  define h1 where "h1 = fold exec_ok jobs h"
  have h1: "sets h1 = sets h" "next_set h1 = next_set h" "next_job h1 = next_job h"
    "exec_log h1 = exec_log h @ jobs"
    "objs h1 = (\<lambda>j. if j \<in> set jobs then executed (objs h j) else objs h j)"
    using assms(1) by (simp_all add: h1_def fold_exec_one_frame fold_exec_one_objs fun_eq_iff)
  have r: "fst (recalc_jobs M sch ref_dt jobs h1) = Inr ()"
    "recalc_post M sch ref_dt jobs h1 (snd (recalc_jobs M sch ref_dt jobs h1))"
    using recalc_jobs_result [of jobs h1 sch M ref_dt] assms by (simp_all add: h1 registered_def)
  have w: "jobs = [] \<or> 0 < (if s_n_threads sch = 0 then length jobs else s_n_threads sch)"
    by (cases jobs) auto
  have p: "private_exec_jobs M sch h jobs ref_dt =
      (case recalc_jobs M sch ref_dt jobs h1 of
         (Inl e, h2) \<Rightarrow> (Raises e, h2)
       | (Inr u, h2) \<Rightarrow> (Returns (length jobs), h2))"
    using exec_inline_ok [OF assms(1,4)] exec_job_workers_ok [OF assms(1,4) w]
    by (cases "s_n_threads sch = 1") (simp_all add: private_exec_jobs_def h1_def Let_def)
  obtain u h2 where eq: "recalc_jobs M sch ref_dt jobs h1 = (Inr u, h2)"
    using r(1) by (cases "recalc_jobs M sch ref_dt jobs h1") auto
  have flt: "filter (\<lambda>j. j \<notin> set jobs \<or> has_attempts_remaining (objs h1 j)) (sets h (s_jobs sch))
     = filter (\<lambda>j. j \<notin> set jobs \<or> has_attempts_remaining (executed (objs h j))) (sets h (s_jobs sch))"
    by (intro filter_cong) (auto simp: h1)
  have ob: "(\<lambda>j. if j \<in> set jobs then calc_next_exec M (objs h1 j) ref_dt else objs h1 j)
     = (\<lambda>j. if j \<in> set jobs then calc_next_exec M (executed (objs h j)) ref_dt else objs h j)"
    by (auto simp: fun_eq_iff h1)
  have "tick_post M sch ref_dt jobs h h2"
    using r(2) unfolding eq snd_conv recalc_post_def tick_post_def h1(1,2,3,4) flt ob by blast
  then show ?thesis by (simp add: p eq)
qed

lemma dispatched_eq: "exec_log h' = exec_log h @ xs \<Longrightarrow> dispatched h h' = xs"
  by (simp add: dispatched_def)

lemma dispatched_append:
  assumes "exec_log h1 = exec_log h @ dispatched h h1" "exec_log h2 = exec_log h1 @ dispatched h1 h2"
  shows "dispatched h h2 = dispatched h h1 @ dispatched h1 h2"
  by (rule dispatched_eq) (simp add: assms)

lemma keeps_refl: "keeps sch jobs h h"
  by (simp add: keeps_def dispatched_def)

lemma keeps_trans:
  assumes "keeps sch jobs h h1" "keeps sch jobs h1 h2"
  shows "keeps sch jobs h h2"
proof -
  have d: "dispatched h h2 = dispatched h h1 @ dispatched h1 h2"
    using assms by (intro dispatched_append) (simp_all add: keeps_def)
  show ?thesis
    using assms unfolding keeps_def d by auto
qed

lemma keeps_mono: "keeps sch jobs h h' \<Longrightarrow> set jobs \<subseteq> set jobs' \<Longrightarrow> keeps sch jobs' h h'"
  unfolding keeps_def by blast

lemma exec_one_keeps: "keeps sch [job] h (snd (exec_one M job h))"
proof -
  have "exec_log (snd (exec_one M job h)) = exec_log h @ [job]"
    by (simp add: exec_one_def Job_exec_def)
  then have d: "dispatched h (snd (exec_one M job h)) = [job]" by (rule dispatched_eq)
  show ?thesis
    unfolding keeps_def d
    by (simp add: exec_one_def Job_exec_def executed_def registered_def)
qed

lemma exec_inline_keeps: "keeps sch jobs h (snd (exec_inline M jobs h))"
proof (induction jobs arbitrary: h)
  case Nil
  show ?case by (simp add: keeps_refl)
next
  case (Cons job jobs)
  obtain r h1 where e: "exec_one M job h = (r, h1)" by (cases "exec_one M job h")
  have k1: "keeps sch (job # jobs) h h1"
    using exec_one_keeps [of sch job h M] by (auto simp: e intro: keeps_mono)
  show ?case
  proof (cases r)
    case (Inl err)
    then show ?thesis using k1 by (simp add: e)
  next
    case (Inr u)
    have "keeps sch (job # jobs) h1 (snd (exec_inline M jobs h1))"
      using Cons.IH [of h1] by (auto intro: keeps_mono)
    with k1 show ?thesis using Inr by (simp add: e keeps_trans)
  qed
qed

lemma exec_job_workers_keeps: "keeps sch jobs h (snd (exec_job_workers M n jobs h))"
proof (induction jobs arbitrary: h n)
  case Nil
  show ?case by (simp add: keeps_refl)
next
  case (Cons job jobs)
  show ?case
  proof (cases n)
    case 0
    then show ?thesis by (simp add: keeps_refl)
  next
    case (Suc m)
    obtain r h1 where e: "exec_one M job h = (r, h1)" by (cases "exec_one M job h")
    have k1: "keeps sch (job # jobs) h h1"
      using exec_one_keeps [of sch job h M] by (auto simp: e intro: keeps_mono)
    have k2: "keeps sch (job # jobs) h1 (snd (exec_job_workers M k jobs h1))" for k
      using Cons.IH [of h1 k] by (auto intro: keeps_mono)
    show ?thesis
      using k1 k2 by (cases r) (auto simp: Suc e intro: keeps_trans)
  qed
qed

lemma delete_job_keeps: "keeps sch [] h (snd (delete_job sch h job))"
  using set_remove1_subset [of job "sets h (s_jobs sch)"]
  by (auto simp: keeps_def delete_job_def set_remove_def registered_def dispatched_def)

lemma recalc_jobs_keeps: "keeps sch [] h (snd (recalc_jobs M sch ref_dt jobs h))"
proof (induction jobs arbitrary: h)
  case Nil
  show ?case by (simp add: keeps_refl)
next
  case (Cons job jobs)
  define h1 where "h1 = h\<lparr>objs := (objs h)(job := calc_next_exec M (objs h job) ref_dt)\<rparr>"
  have k1: "keeps sch [] h h1"
    by (simp add: keeps_def h1_def registered_def dispatched_def calc_next_exec_def)
  obtain r h2 where d: "delete_job sch h1 job = (r, h2)" by (cases "delete_job sch h1 job")
  have k2: "keeps sch [] h h2"
    using keeps_trans [OF k1 delete_job_keeps [of sch h1 job]] by (simp add: d)
  have step: "snd (recalc_jobs M sch ref_dt (job # jobs) h) =
      (if \<not> has_attempts_remaining (objs h1 job) then
         (case r of Inl e \<Rightarrow> h2 | Inr u \<Rightarrow> snd (recalc_jobs M sch ref_dt jobs h2))
       else snd (recalc_jobs M sch ref_dt jobs h1))"
    by (cases r) (simp_all add: Let_def h1_def [symmetric] d)
  show ?case
    unfolding step
    using k1 k2 keeps_trans [OF k1 Cons.IH [of h1]] keeps_trans [OF k2 Cons.IH [of h2]]
    by (cases r) simp_all
qed

lemma private_exec_jobs_keeps: "keeps sch jobs h (snd (private_exec_jobs M sch h jobs ref_dt))"
proof -
  have r: "keeps sch jobs h1 (snd (recalc_jobs M sch ref_dt jobs h1))" for h1
    using recalc_jobs_keeps [of sch h1 M ref_dt jobs] by (auto intro: keeps_mono)
  show ?thesis
  proof (cases "s_n_threads sch = 1")
    case True
    obtain x h1 where e: "exec_inline M jobs h = (x, h1)" by (cases "exec_inline M jobs h")
    have k: "keeps sch jobs h h1" using exec_inline_keeps [of sch jobs h M] by (simp add: e)
    show ?thesis
      using True k keeps_trans [OF k r [of h1]]
      by (cases x; cases "recalc_jobs M sch ref_dt jobs h1"; cases "fst (recalc_jobs M sch ref_dt jobs h1)")
         (simp_all add: private_exec_jobs_def Let_def e)
  next
    case False
    let ?n = "if s_n_threads sch = 0 then length jobs else s_n_threads sch"
    obtain x h1 where e: "exec_job_workers M ?n jobs h = (x, h1)"
      by (cases "exec_job_workers M ?n jobs h")
    have k: "keeps sch jobs h h1" using exec_job_workers_keeps [of sch jobs h M ?n] by (simp add: e)
    show ?thesis
      using False k keeps_trans [OF k r [of h1]]
      by (cases x; cases "recalc_jobs M sch ref_dt jobs h1"; cases "fst (recalc_jobs M sch ref_dt jobs h1)")
         (simp_all add: private_exec_jobs_def Let_def e)
  qed
qed

lemma sorted_reverse_set [simp]: "set (sorted_reverse key xs) = set xs"
  by (simp add: sorted_reverse_def)

lemma sorted_reverse_distinct [simp]: "distinct (sorted_reverse key xs) = distinct xs"
  by (simp add: sorted_reverse_def)

lemma sorted_reverse_length [simp]: "length (sorted_reverse key xs) = length xs"
  by (simp add: sorted_reverse_def)

lemma sorted_reverse_descending:
  "sorted_wrt (\<lambda>a b. key a \<ge> key b) (sorted_reverse key xs)"
proof -
  have "sorted (map key (sort_key key (rev xs)))" by simp
  then have "sorted_wrt (\<lambda>a b. key a \<le> key b) (sort_key key (rev xs))"
    by (simp add: sorted_map)
  then show ?thesis by (simp add: sorted_reverse_def sorted_wrt_rev)
qed


lemma enumerate_filter_idx:
  "map snd (filter (\<lambda>(idx, x). int idx < m \<and> P x) (enumerate k xs)) = filter P (take (nat (m - int k)) xs)"
proof (induction xs arbitrary: k)
  case Nil
  then show ?case by simp
next
  case (Cons x xs)
  show ?case
  proof (cases "int k < m")
    case True
    then have "nat (m - int k) = Suc (nat (m - int (Suc k)))" by simp
    then show ?thesis using True Cons.IH [of "Suc k"] by simp
  next
    case False
    then have z: "nat (m - int k) = 0" "nat (m - int (Suc k)) = 0" by simp_all
    show ?thesis using False Cons.IH [of "Suc k"] by (simp add: z)
  qed
qed

lemma enumerate_filter_all:
  "map snd (filter (\<lambda>(idx, x). P x) (enumerate k xs)) = filter P xs"
  by (induction xs arbitrary: k) simp_all

lemma filter_take_descending:
  "sorted_wrt (\<lambda>a b. key a \<ge> key b) xs \<Longrightarrow>
   filter (\<lambda>x. key x > (0::real)) (take n xs) = take n (filter (\<lambda>x. key x > 0) xs)"
proof (induction xs arbitrary: n)
  case Nil
  then show ?case by simp
next
  case (Cons x xs)
  show ?case
  proof (cases n)
    case 0
    then show ?thesis by simp
  next
    case (Suc m)
    show ?thesis
    proof (cases "key x > 0")
      case True
      then show ?thesis using Cons Suc by simp
    next
      case False
      with Cons.prems have "\<forall>y \<in> set xs. \<not> key y > 0" by auto
      then have "filter (\<lambda>x. key x > 0) xs = []" "filter (\<lambda>x. key x > 0) (take m xs) = []"
        by (auto simp: filter_empty_conv dest: in_set_takeD)
      then show ?thesis using False Suc by simp
    qed
  qed
qed

lemma filtered_jobs_eq:
  "filtered_jobs M sch h ref_dt =
     (if s_max_exec sch = 0 then filter (\<lambda>job. job_priority M sch h ref_dt job > 0) (sorted_jobs M sch h ref_dt)
      else take (nat (s_max_exec sch))
             (filter (\<lambda>job. job_priority M sch h ref_dt job > 0) (sorted_jobs M sch h ref_dt)))"
proof (cases "s_max_exec sch = 0")
  case True
  then show ?thesis by (simp add: filtered_jobs_def enumerate_filter_all)
next
  case False
  have "filtered_jobs M sch h ref_dt =
      filter (\<lambda>job. job_priority M sch h ref_dt job > 0) (take (nat (s_max_exec sch)) (sorted_jobs M sch h ref_dt))"
    using False enumerate_filter_idx [of "s_max_exec sch" "\<lambda>job. job_priority M sch h ref_dt job > 0" 0]
    by (simp add: filtered_jobs_def)
  also have "\<dots> = take (nat (s_max_exec sch))
             (filter (\<lambda>job. job_priority M sch h ref_dt job > 0) (sorted_jobs M sch h ref_dt))"
    by (rule filter_take_descending) (simp add: sorted_jobs_def sorted_reverse_descending)
  finally show ?thesis using False by simp
qed

lemma filtered_jobs_sub:
  "set (filtered_jobs M sch h ref_dt) \<subseteq> set (registered sch h)"
  by (auto simp: filtered_jobs_eq sorted_jobs_def dest: in_set_takeD)

lemma filtered_jobs_distinct:
  "distinct (registered sch h) \<Longrightarrow> distinct (filtered_jobs M sch h ref_dt)"
  by (simp add: filtered_jobs_eq sorted_jobs_def)

lemma selected_jobs_sub: "set (selected_jobs M sch h ref_dt f) \<subseteq> set (registered sch h)"
  using filtered_jobs_sub [of M sch h ref_dt] by (simp add: selected_jobs_def)

lemma selected_jobs_distinct: "well_formed sch h \<Longrightarrow> distinct (selected_jobs M sch h ref_dt f)"
  by (simp add: selected_jobs_def well_formed_def filtered_jobs_distinct)

lemma exec_jobs_private:
  "exec_jobs M sch h ref_dt f = private_exec_jobs M sch h (selected_jobs M sch h ref_dt f) ref_dt"
  by (simp add: exec_jobs_def selected_jobs_def)

text \<open>Whatever the callbacks do.\<close>

lemma exec_jobs_keeps:
  "keeps sch (selected_jobs M sch h ref_dt f) h (snd (exec_jobs M sch h ref_dt f))"
  by (simp add: exec_jobs_private private_exec_jobs_keeps)

lemma keeps_wf: "well_formed sch h \<Longrightarrow> keeps sch jobs h h' \<Longrightarrow> well_formed sch h'"
  by (auto simp: well_formed_def keeps_def list_all_iff)

lemma exec_jobs_wf: "well_formed sch h \<Longrightarrow> well_formed sch (snd (exec_jobs M sch h ref_dt f))"
  by (erule keeps_wf) (rule exec_jobs_keeps)

lemma exec_jobs_log:
  "exec_log (snd (exec_jobs M sch h ref_dt f)) =
     exec_log h @ dispatched h (snd (exec_jobs M sch h ref_dt f))"
  using exec_jobs_keeps [of sch M h ref_dt f] by (simp add: keeps_def)

lemma exec_jobs_dispatched_sub:
  "set (dispatched h (snd (exec_jobs M sch h ref_dt f))) \<subseteq> set (selected_jobs M sch h ref_dt f)"
  using exec_jobs_keeps [of sch M h ref_dt f] by (simp add: keeps_def)

text \<open>When the callbacks of the selected jobs return.\<close>

lemma exec_jobs_result:
  assumes "well_formed sch h" "callbacks_return M h (selected_jobs M sch h ref_dt f)"
  shows "fst (exec_jobs M sch h ref_dt f) = Returns (length (selected_jobs M sch h ref_dt f))
       \<and> tick_post M sch ref_dt (selected_jobs M sch h ref_dt f) h
            (snd (exec_jobs M sch h ref_dt f))"
proof -
  have d: "distinct (registered sch h)" using assms(1) by (simp add: well_formed_def)
  show ?thesis
    unfolding exec_jobs_private
    using selected_jobs_distinct [OF assms(1)] selected_jobs_sub d assms(2)
    by (rule private_exec_jobs_result)
qed

lemma tick_post_registered:
  "tick_post M sch ref_dt jobs h h' \<Longrightarrow>
   registered sch h' = filter (\<lambda>j. j \<notin> set jobs \<or> has_attempts_remaining (executed (objs h j)))
                         (registered sch h)"
  by (simp add: tick_post_def registered_def)

lemma count_list_distinct: "distinct xs \<Longrightarrow> count_list xs x = (if x \<in> set xs then 1 else 0)"
  by (induction xs) auto

lemma exec_jobs_dispatched:
  assumes "well_formed sch h" "callbacks_return M h (selected_jobs M sch h ref_dt f)"
  shows "dispatched h (snd (exec_jobs M sch h ref_dt f)) = selected_jobs M sch h ref_dt f"
  using exec_jobs_result [OF assms] by (simp add: tick_post_def dispatched_def)

lemma exec_jobs_progress:
  assumes "well_formed sch h" "callbacks_return M h (selected_jobs M sch h ref_dt f)"
  shows "progress sch job h (snd (exec_jobs M sch h ref_dt f))"
proof -
  let ?sel = "selected_jobs M sch h ref_dt f"
  let ?h' = "snd (exec_jobs M sch h ref_dt f)"
  have tp: "tick_post M sch ref_dt ?sel h ?h'"
    using exec_jobs_result [OF assms] by blast
  have d: "distinct ?sel" using assms(1) by (rule selected_jobs_distinct)
  have lg: "exec_log ?h' = exec_log h @ ?sel" using tp by (simp add: tick_post_def)
  have dp: "dispatched h ?h' = ?sel" using assms by (rule exec_jobs_dispatched)
  have ob: "objs ?h' job =
      (if job \<in> set ?sel then calc_next_exec M (executed (objs h job)) ref_dt else objs h job)"
    using tp by (simp add: tick_post_def)
  have reg: "registered sch ?h' =
      filter (\<lambda>j. j \<notin> set ?sel \<or> has_attempts_remaining (executed (objs h j))) (registered sch h)"
    using tp by (rule tick_post_registered)
  show ?thesis
    unfolding progress_def dp
    using exec_jobs_wf [OF assms(1), of M ref_dt f]
    by (auto simp: lg count_list_distinct [OF d] ob reg calc_next_exec_def executed_def
        has_attempts_remaining_def)
qed

lemma progress_trans:
  assumes "progress sch job h h1" "progress sch job h1 h2"
  shows "progress sch job h h2"
proof -
  have d: "dispatched h h2 = dispatched h h1 @ dispatched h1 h2"
    using assms by (intro dispatched_append) (simp_all add: progress_def)
  show ?thesis
    using assms unfolding progress_def d has_attempts_remaining_def by auto
qed

lemma run_ticks_progress:
  "well_formed sch h \<Longrightarrow> run_returns M sch h ticks \<Longrightarrow> progress sch job h (run_ticks M sch h ticks)"
proof (induction ticks arbitrary: h)
  case Nil
  then show ?case by (simp add: progress_def dispatched_def)
next
  case (Cons t ticks)
  obtain ref_dt f where t: "t = (ref_dt, f)" by (cases t)
  let ?h1 = "snd (exec_jobs M sch h ref_dt f)"
  from Cons.prems(2) have c: "callbacks_return M h (selected_jobs M sch h ref_dt f)"
    and r: "run_returns M sch ?h1 ticks"
    by (simp_all add: t)
  have p1: "progress sch job h ?h1" using Cons.prems(1) c by (rule exec_jobs_progress)
  then have "well_formed sch ?h1" by (simp add: progress_def)
  then have "progress sch job ?h1 (run_ticks M sch ?h1 ticks)" using r by (rule Cons.IH)
  with p1 show ?case unfolding t by (simp add: progress_trans)
qed

lemma exec_jobs_objs:
  assumes "well_formed sch h" "callbacks_return M h (selected_jobs M sch h ref_dt f)"
  shows "objs (snd (exec_jobs M sch h ref_dt f)) job =
     (if job \<in> set (dispatched h (snd (exec_jobs M sch h ref_dt f)))
      then calc_next_exec M (executed (objs h job)) ref_dt else objs h job)"
  using exec_jobs_result [OF assms] exec_jobs_dispatched [OF assms]
  by (simp add: tick_post_def)

lemma exec_jobs_registered:
  assumes "well_formed sch h" "callbacks_return M h (selected_jobs M sch h ref_dt f)"
  shows "registered sch (snd (exec_jobs M sch h ref_dt f)) =
     filter (\<lambda>job. job \<notin> set (dispatched h (snd (exec_jobs M sch h ref_dt f)))
                  \<or> has_attempts_remaining (objs (snd (exec_jobs M sch h ref_dt f)) job))
       (registered sch h)"
proof -
  let ?h' = "snd (exec_jobs M sch h ref_dt f)"
  have "registered sch ?h' =
     filter (\<lambda>j. j \<notin> set (dispatched h ?h') \<or> has_attempts_remaining (executed (objs h j)))
       (registered sch h)"
  proof -
    have "tick_post M sch ref_dt (selected_jobs M sch h ref_dt f) h ?h'"
      using exec_jobs_result [OF assms] by blast
    then show ?thesis
      unfolding exec_jobs_dispatched [OF assms] by (rule tick_post_registered)
  qed
  also have "\<dots> = filter (\<lambda>job. job \<notin> set (dispatched h ?h') \<or> has_attempts_remaining (objs ?h' job))
       (registered sch h)"
    by (intro filter_cong) (auto simp: exec_jobs_objs [OF assms])
  finally show ?thesis .
qed

lemma run_ticks_exhausted:
  assumes "well_formed sch h" "run_returns M sch h ticks" "0 < j_max_attempts (objs h job)"
    "0 < count_list (dispatched h (run_ticks M sch h ticks)) job"
    "j_max_attempts (objs h job)
       \<le> j_attempts (objs h job) + int (count_list (dispatched h (run_ticks M sch h ticks)) job)"
  shows "job \<notin> set (registered sch (run_ticks M sch h ticks))"
proof
  let ?h' = "run_ticks M sch h ticks"
  assume r: "job \<in> set (registered sch ?h')"
  have p: "progress sch job h ?h'" using assms(1,2) by (rule run_ticks_progress)
  from p r assms(4) have "has_attempts_remaining (objs ?h' job)" by (auto simp: progress_def)
  moreover from p have "j_max_attempts (objs ?h' job) = j_max_attempts (objs h job)"
    "j_max_attempts (objs h job) \<le> j_attempts (objs ?h' job)"
    using assms(5) by (simp_all add: progress_def)
  ultimately show False using assms(3) by (simp add: has_attempts_remaining_def)
qed

section \<open>The concrete scheduler, evaluated\<close>

lemma ex_wf: "well_formed ex_sch ex_heap"
  by (simp add: well_formed_def registered_def ex_sch_def ex_heap_def)

lemma ex_registered: "registered ex_sch ex_heap = [4, 5, 6, 7]"
  by (simp add: registered_def ex_sch_def ex_heap_def)

lemma ex_priorities:
  "job_priority ex_env ex_sch ex_heap 5000000 4 = 6"
  "job_priority ex_env ex_sch ex_heap 5000000 5 = 30"
  "job_priority ex_env ex_sch ex_heap 5000000 6 = 60"
  "job_priority ex_env ex_sch ex_heap 5000000 7 = 0"
  by (simp_all add: job_priority_def ex_registered ex_env_def timedelta_def ex_priority_def
      ex_job_def, simp_all add: ex_sch_def ex_heap_def ex_priority_def ex_job_def)

lemma ex_sorted_jobs: "sorted_jobs ex_env ex_sch ex_heap 5000000 = [6, 5, 4, 7]"
  by (simp add: sorted_jobs_def sorted_reverse_def ex_registered ex_priorities)

lemma ex_filtered_jobs: "filtered_jobs ex_env ex_sch ex_heap 5000000 = [6, 5]"
  by (simp add: filtered_jobs_eq ex_sorted_jobs ex_priorities) (simp add: ex_sch_def)

lemma ex_objs:
  "objs ex_heap 4 = ex_job 1 {''a''} 1 0"
  "objs ex_heap 5 = ex_job 2 {''a'', ''b''} 5 0"
  "objs ex_heap 6 = ex_job 0 {''b''} 10 0"
  "objs ex_heap 7 = ex_job 0 {} 1 9000000"
  by (simp_all add: ex_heap_def)

lemma ex_returns: "callbacks_return ex_env h jobs"
  by (simp add: callbacks_return_def ex_env_def list_all_iff)

lemma ex_run_returns: "run_returns ex_env ex_sch h ticks"
  by (induction ticks arbitrary: h) (auto simp: ex_returns)

lemma ex_forced: "dispatched ex_heap (snd (exec_jobs ex_env ex_sch ex_heap 5000000 True)) = [4, 5, 6, 7]"
  using exec_jobs_dispatched [OF ex_wf ex_returns, of 5000000 True]
  by (simp add: selected_jobs_def ex_registered)

lemma ex_forced_registered:
  "registered ex_sch (snd (exec_jobs ex_env ex_sch ex_heap 5000000 True)) = [5, 6, 7]"
proof -
  have "tick_post ex_env ex_sch 5000000 (selected_jobs ex_env ex_sch ex_heap 5000000 True) ex_heap
          (snd (exec_jobs ex_env ex_sch ex_heap 5000000 True))"
    using exec_jobs_result [OF ex_wf ex_returns, of 5000000 True] by blast
  from tick_post_registered [OF this] show ?thesis
    by (simp add: selected_jobs_def ex_registered has_attempts_remaining_def executed_def ex_objs
        ex_job_def)
qed

lemma ex_two_forced:
  "dispatched ex_heap (run_ticks ex_env ex_sch ex_heap [(5000000, True), (6000000, True)])
     = [4, 5, 6, 7, 5, 6, 7]"
proof -
  let ?h1 = "snd (exec_jobs ex_env ex_sch ex_heap 5000000 True)"
  let ?h2 = "snd (exec_jobs ex_env ex_sch ?h1 6000000 True)"
  have w1: "well_formed ex_sch ?h1" using ex_wf by (rule exec_jobs_wf)
  have d2: "dispatched ?h1 ?h2 = [5, 6, 7]"
    using exec_jobs_dispatched [OF w1 ex_returns, of 6000000 True]
    by (simp add: selected_jobs_def ex_forced_registered)
  have "dispatched ex_heap ?h2 = dispatched ex_heap ?h1 @ dispatched ?h1 ?h2"
    using exec_jobs_log exec_jobs_log by (rule dispatched_append)
  then show ?thesis by (simp add: ex_forced d2)
qed

lemma ex_job5: "j_max_attempts (objs ex_heap 5) = 2" "j_attempts (objs ex_heap 5) = 0"
  by (simp_all add: ex_objs ex_job_def)


lemma ex_supplied: "supplied_jobs ex_heap (Some 3) = [4, 5, 6, 7]" "supplied_ok ex_heap (Some 3)"
  by (simp_all add: supplied_jobs_def supplied_ok_def ex_heap_def)

lemma ex_tz: "j_tzinfo (objs ex_heap 4) = None" "j_tzinfo (objs ex_heap 5) = None"
  "j_tzinfo (objs ex_heap 6) = None" "j_tzinfo (objs ex_heap 7) = None"
  by (simp_all add: ex_heap_def ex_job_def)

text \<open>The same scheduler when the callback of job 6 raises.\<close>

lemma ex_raising_priority: "job_priority ex_env_raising = job_priority ex_env"
  by (simp add: fun_eq_iff job_priority_def ex_env_raising_def)

lemma ex_raising_selected:
  "selected_jobs ex_env_raising ex_sch ex_heap 5000000 False = [6, 5]"
  "selected_jobs ex_env_raising ex_sch ex_heap 5000000 True = [4, 5, 6, 7]"
  using ex_filtered_jobs
  by (simp_all add: selected_jobs_def filtered_jobs_def sorted_jobs_def ex_raising_priority
      ex_registered)

lemma ex_raises:
  "\<not> callback_raises ex_env_raising (ex_job n ts 1 due)"
  "\<not> callback_raises ex_env_raising (ex_job n ts 5 due)"
  "callback_raises ex_env_raising (ex_job n ts 10 due)"
  by (simp_all add: ex_env_raising_def ex_job_def)


lemma ex_raising_forced:
  "exec_jobs ex_env_raising ex_sch ex_heap 5000000 True
     = (Raises CallbackError,
        ex_heap\<lparr>objs := (objs ex_heap)(4 := executed (ex_job 1 {''a''} 1 0),
                                         5 := executed (ex_job 2 {''a'', ''b''} 5 0)),
                 exec_log := [4, 5, 6]\<rparr>)"
proof -
  have n: "s_n_threads ex_sch = 1" by (simp add: ex_sch_def)
  have l: "exec_log ex_heap = []" by (simp add: ex_heap_def)
  have e: "exec_inline ex_env_raising [4, 5, 6, 7] ex_heap
     = (Inl CallbackError,
        ex_heap\<lparr>objs := (objs ex_heap)(4 := executed (ex_job 1 {''a''} 1 0),
                                         5 := executed (ex_job 2 {''a'', ''b''} 5 0)),
                 exec_log := [4, 5, 6]\<rparr>)"
    by (simp add: exec_one_def Job_exec_def ex_objs ex_raises l)
  show ?thesis
    by (simp add: exec_jobs_private ex_raising_selected private_exec_jobs_def n e
        del: exec_inline.simps)
qed

section \<open>Selection and dispatch in one call\<close>




text \<open>
  Claim C5, at an input where the code departs from it: with \<^verbatim>\<open>force_exec_all\<close> and four
  registered jobs, the callback of job 6 raises, job 7 is not dispatched and the call
  raises.
\<close>

theorem exec_jobs_forced_raising:
  "registered ex_sch ex_heap = [4, 5, 6, 7]
   \<and> fst (exec_jobs ex_env_raising ex_sch ex_heap 5000000 True) = Raises CallbackError
   \<and> dispatched ex_heap (snd (exec_jobs ex_env_raising ex_sch ex_heap 5000000 True)) = [4, 5, 6]"
  by (simp add: ex_raising_forced dispatched_def ex_registered) (simp add: ex_heap_def)

text \<open>
  Claim C5, amended. Without \<^verbatim>\<open>force_exec_all\<close>, a registered job whose priority is at most
  0 is not dispatched, whatever \<^verbatim>\<open>max_exec\<close> would still allow. With \<^verbatim>\<open>force_exec_all\<close>,
  when the callbacks of the registered jobs return, every registered job is
  dispatched, whatever its timer and \<^verbatim>\<open>max_exec\<close>.
\<close>

theorem exec_jobs_due_or_forced:
  "well_formed sch h \<longrightarrow>
     (\<forall>job \<in> set (registered sch h).
        job_priority M sch h ref_dt job \<le> 0 \<longrightarrow>
          job \<notin> set (dispatched h (snd (exec_jobs M sch h ref_dt False))))
     \<and> (callbacks_return M h (registered sch h) \<longrightarrow>
          dispatched h (snd (exec_jobs M sch h ref_dt True)) = registered sch h
          \<and> fst (exec_jobs M sch h ref_dt True) = Returns (length (registered sch h)))"
proof
  assume w: "well_formed sch h"
  have g: "set (dispatched h (snd (exec_jobs M sch h ref_dt False))) \<subseteq> set (filtered_jobs M sch h ref_dt)"
    using exec_jobs_dispatched_sub [of h M sch ref_dt False] by (simp add: selected_jobs_def)
  have e: "dispatched h (snd (exec_jobs M sch h ref_dt True)) = registered sch h
      \<and> fst (exec_jobs M sch h ref_dt True) = Returns (length (registered sch h))"
    if "callbacks_return M h (registered sch h)"
    using exec_jobs_dispatched [OF w, of M ref_dt True] exec_jobs_result [OF w, of M ref_dt True] that
    by (simp add: selected_jobs_def)
  have "\<forall>job \<in> set (filtered_jobs M sch h ref_dt). job_priority M sch h ref_dt job > 0"
    by (auto simp: filtered_jobs_eq dest: in_set_takeD)
  with g e show "(\<forall>job \<in> set (registered sch h).
        job_priority M sch h ref_dt job \<le> 0 \<longrightarrow>
          job \<notin> set (dispatched h (snd (exec_jobs M sch h ref_dt False))))
     \<and> (callbacks_return M h (registered sch h) \<longrightarrow>
          dispatched h (snd (exec_jobs M sch h ref_dt True)) = registered sch h
          \<and> fst (exec_jobs M sch h ref_dt True) = Returns (length (registered sch h)))"
    by fastforce
qed

theorem exec_jobs_due_or_forced_witness:
  "well_formed ex_sch ex_heap \<and> 7 \<in> set (registered ex_sch ex_heap)
   \<and> job_priority ex_env ex_sch ex_heap 5000000 7 \<le> 0
   \<and> 7 \<notin> set (dispatched ex_heap (snd (exec_jobs ex_env ex_sch ex_heap 5000000 False)))
   \<and> callbacks_return ex_env ex_heap (registered ex_sch ex_heap)
   \<and> dispatched ex_heap (snd (exec_jobs ex_env ex_sch ex_heap 5000000 True)) = [4, 5, 6, 7]
   \<and> fst (exec_jobs ex_env ex_sch ex_heap 5000000 True) = Returns 4"
  using exec_jobs_due_or_forced [of ex_sch ex_heap ex_env 5000000] ex_wf
    ex_returns [of ex_heap "registered ex_sch ex_heap"]
  by (simp add: ex_registered ex_priorities)

section \<open>Attempts and removal\<close>

text \<open>
  Claim C2, at an input where the code departs from it: job 4 has \<^verbatim>\<open>max_attempts = 1\<close>; in a
  forced call it is dispatched and executed, then the callback of job 6 raises, and job
  4 is still registered and its next-due instant has not been recomputed.
\<close>

theorem attempts_exhausted_raising:
  "j_max_attempts (objs ex_heap 4) = 1
   \<and> count_list (dispatched ex_heap (run_ticks ex_env_raising ex_sch ex_heap [(5000000, True)])) 4 = 1
   \<and> j_attempts (objs (run_ticks ex_env_raising ex_sch ex_heap [(5000000, True)]) 4) = 1
   \<and> registered ex_sch (run_ticks ex_env_raising ex_sch ex_heap [(5000000, True)]) = [4, 5, 6, 7]
   \<and> j_pending (objs (run_ticks ex_env_raising ex_sch ex_heap [(5000000, True)]) 4) = 0
   \<and> next_due ex_env_raising (executed (objs ex_heap 4)) 5000000 = 6000000"
  by (simp add: ex_raising_forced dispatched_def ex_objs registered_def)
     (simp add: ex_heap_def ex_sch_def ex_job_def executed_def ex_env_raising_def ex_env_def)

text \<open>
  Claim C2, amended. After a call of \<^verbatim>\<open>exec_jobs\<close> in which the callbacks of the selected
  jobs return, each dispatched job has been executed and has had its next-due instant
  recomputed from the reference instant of the call, and the registered jobs are those
  of before without the dispatched jobs that have no attempts remaining. In a run of
  such calls, a registered job with \<^verbatim>\<open>max_attempts = N > 0\<close> that the run has dispatched
  exactly \<open>N\<close> times is no longer registered and not in the result of \<^verbatim>\<open>get_jobs()\<close>; so is,
  more generally, a job that the run dispatched at least once and whose executions
  have reached \<open>N\<close>.
\<close>

theorem attempts_exhausted_removed:
  "well_formed sch h \<longrightarrow>
     (callbacks_return M h (selected_jobs M sch h ref_dt force_exec_all) \<longrightarrow>
        (let h' = snd (exec_jobs M sch h ref_dt force_exec_all); run = dispatched h h'
         in (\<forall>j \<in> set run. objs h' j = calc_next_exec M (executed (objs h j)) ref_dt)
            \<and> registered sch h' =
                filter (\<lambda>j. j \<notin> set run \<or> has_attempts_remaining (objs h' j)) (registered sch h)))
     \<and> (run_returns M sch h ticks
        \<and> job \<in> set (registered sch h)
        \<and> 0 < j_max_attempts (objs h job) \<and> 0 \<le> j_attempts (objs h job)
        \<and> int (count_list (dispatched h (run_ticks M sch h ticks)) job) = j_max_attempts (objs h job)
        \<longrightarrow> job \<notin> set (registered sch (run_ticks M sch h ticks))
            \<and> job \<notin> returned (get_jobs sch (run_ticks M sch h ticks) None any_tag))
     \<and> (run_returns M sch h ticks
        \<and> job \<in> set (registered sch h)
        \<and> 0 < j_max_attempts (objs h job)
        \<and> 0 < count_list (dispatched h (run_ticks M sch h ticks)) job
        \<and> j_max_attempts (objs h job)
            \<le> j_attempts (objs h job) + int (count_list (dispatched h (run_ticks M sch h ticks)) job)
        \<longrightarrow> job \<notin> set (registered sch (run_ticks M sch h ticks))
            \<and> job \<notin> returned (get_jobs sch (run_ticks M sch h ticks) None any_tag))"
proof
  assume w: "well_formed sch h"
  have a: "\<forall>j \<in> set (dispatched h (snd (exec_jobs M sch h ref_dt force_exec_all))).
      objs (snd (exec_jobs M sch h ref_dt force_exec_all)) j = calc_next_exec M (executed (objs h j)) ref_dt"
    if "callbacks_return M h (selected_jobs M sch h ref_dt force_exec_all)"
    by (simp add: exec_jobs_objs [OF w that])
  have b: "registered sch (snd (exec_jobs M sch h ref_dt force_exec_all)) =
     filter (\<lambda>job. job \<notin> set (dispatched h (snd (exec_jobs M sch h ref_dt force_exec_all)))
                  \<or> has_attempts_remaining (objs (snd (exec_jobs M sch h ref_dt force_exec_all)) job))
       (registered sch h)"
    if "callbacks_return M h (selected_jobs M sch h ref_dt force_exec_all)"
    using w that by (rule exec_jobs_registered)
  have c: "returned (get_jobs sch (run_ticks M sch h ticks) None any_tag)
      = set (registered sch (run_ticks M sch h ticks))"
    by (simp add: get_jobs_returned)
  have d: "job \<notin> set (registered sch (run_ticks M sch h ticks))"
    if "run_returns M sch h ticks" "0 < j_max_attempts (objs h job)"
      "0 < count_list (dispatched h (run_ticks M sch h ticks)) job"
      "j_max_attempts (objs h job)
        \<le> j_attempts (objs h job) + int (count_list (dispatched h (run_ticks M sch h ticks)) job)"
    using w that by (rule run_ticks_exhausted)
  have e: "job \<notin> set (registered sch (run_ticks M sch h ticks))"
    if "run_returns M sch h ticks" "0 < j_max_attempts (objs h job)" "0 \<le> j_attempts (objs h job)"
      "int (count_list (dispatched h (run_ticks M sch h ticks)) job) = j_max_attempts (objs h job)"
    using that by (intro d) simp_all
  show "(callbacks_return M h (selected_jobs M sch h ref_dt force_exec_all) \<longrightarrow>
        (let h' = snd (exec_jobs M sch h ref_dt force_exec_all); run = dispatched h h'
         in (\<forall>j \<in> set run. objs h' j = calc_next_exec M (executed (objs h j)) ref_dt)
            \<and> registered sch h' =
                filter (\<lambda>j. j \<notin> set run \<or> has_attempts_remaining (objs h' j)) (registered sch h)))
     \<and> (run_returns M sch h ticks
        \<and> job \<in> set (registered sch h)
        \<and> 0 < j_max_attempts (objs h job) \<and> 0 \<le> j_attempts (objs h job)
        \<and> int (count_list (dispatched h (run_ticks M sch h ticks)) job) = j_max_attempts (objs h job)
        \<longrightarrow> job \<notin> set (registered sch (run_ticks M sch h ticks))
            \<and> job \<notin> returned (get_jobs sch (run_ticks M sch h ticks) None any_tag))
     \<and> (run_returns M sch h ticks
        \<and> job \<in> set (registered sch h)
        \<and> 0 < j_max_attempts (objs h job)
        \<and> 0 < count_list (dispatched h (run_ticks M sch h ticks)) job
        \<and> j_max_attempts (objs h job)
            \<le> j_attempts (objs h job) + int (count_list (dispatched h (run_ticks M sch h ticks)) job)
        \<longrightarrow> job \<notin> set (registered sch (run_ticks M sch h ticks))
            \<and> job \<notin> returned (get_jobs sch (run_ticks M sch h ticks) None any_tag))"
    unfolding Let_def c using a b d e by blast
qed

theorem attempts_exhausted_removed_witness:
  "well_formed ex_sch ex_heap \<and> 5 \<in> set (registered ex_sch ex_heap)
   \<and> callbacks_return ex_env ex_heap (selected_jobs ex_env ex_sch ex_heap 5000000 True)
   \<and> run_returns ex_env ex_sch ex_heap [(5000000, True), (6000000, True)]
   \<and> j_max_attempts (objs ex_heap 5) = 2 \<and> j_attempts (objs ex_heap 5) = 0
   \<and> count_list (dispatched ex_heap
        (run_ticks ex_env ex_sch ex_heap [(5000000, True), (6000000, True)])) 5 = 2
   \<and> 5 \<notin> set (registered ex_sch
        (run_ticks ex_env ex_sch ex_heap [(5000000, True), (6000000, True)]))
   \<and> dispatched ex_heap (snd (exec_jobs ex_env ex_sch ex_heap 5000000 True)) = [4, 5, 6, 7]
   \<and> registered ex_sch (snd (exec_jobs ex_env ex_sch ex_heap 5000000 True)) = [5, 6, 7]"
  using attempts_exhausted_removed [of ex_sch ex_heap ex_env 5000000 True
      "[(5000000, True), (6000000, True)]" 5 False] ex_wf
    ex_returns [of ex_heap "selected_jobs ex_env ex_sch ex_heap 5000000 True"]
    ex_run_returns [of ex_heap "[(5000000, True), (6000000, True)]"]
  by (simp add: Let_def ex_forced ex_registered ex_job5 ex_forced_registered ex_two_forced
      del: run_ticks.simps run_returns.simps)

section \<open>Queries and deletion\<close>

text \<open>
  Claim C8. \<^verbatim>\<open>delete_job\<close> removes the job with the given identity, and only that one,
  from the set of the scheduler when the job is registered; when it is not, the call
  raises an error and the store is as before.
\<close>

theorem delete_job_identity:
  "well_formed sch h \<longrightarrow>
     (job \<in> set (registered sch h) \<longrightarrow>
        fst (delete_job sch h job) = Inr ()
        \<and> registered sch (snd (delete_job sch h job)) = filter (\<lambda>j. j \<noteq> job) (registered sch h)
        \<and> set (registered sch (snd (delete_job sch h job))) = set (registered sch h) - {job}
        \<and> objs (snd (delete_job sch h job)) = objs h)
     \<and> (job \<notin> set (registered sch h) \<longrightarrow> delete_job sch h job = (Inl KeyError, h))"
  by (auto simp: delete_job_def set_remove_def registered_def well_formed_def remove1_filter)

theorem delete_job_identity_witness:
  "well_formed ex_sch ex_heap
   \<and> 5 \<in> set (registered ex_sch ex_heap)
   \<and> fst (delete_job ex_sch ex_heap 5) = Inr ()
   \<and> registered ex_sch (snd (delete_job ex_sch ex_heap 5)) = [4, 6, 7]
   \<and> 9 \<notin> set (registered ex_sch ex_heap)
   \<and> delete_job ex_sch ex_heap 9 = (Inl KeyError, ex_heap)"
  using delete_job_identity [of ex_sch ex_heap 5] delete_job_identity [of ex_sch ex_heap 9] ex_wf
  by (simp add: ex_registered)

text \<open>
  Claim C3, at an input where the code departs from it: with the empty set of tags and
  \<^verbatim>\<open>any_tag = True\<close>, \<^verbatim>\<open>get_jobs\<close> returns no job although four are registered.
\<close>

theorem get_jobs_empty_tags_any:
  "returned (get_jobs ex_sch ex_heap (Some {}) True) = {}
   \<and> set (registered ex_sch ex_heap) = {4, 5, 6, 7}"
  by (simp add: get_jobs_returned ex_registered)

text \<open>
  Claim C4, at an input where the code departs from it: with the empty set of tags and
  \<^verbatim>\<open>any_tag = True\<close>, \<^verbatim>\<open>delete_jobs\<close> returns 0 and the four registered jobs stay.
\<close>

theorem delete_jobs_empty_tags_any:
  "fst (delete_jobs ex_sch ex_heap (Some {}) True) = 0
   \<and> length (registered ex_sch ex_heap) = 4
   \<and> registered (fst (snd (delete_jobs ex_sch ex_heap (Some {}) True)))
        (snd (snd (delete_jobs ex_sch ex_heap (Some {}) True))) = [4, 5, 6, 7]"
  by (simp add: delete_jobs_def eq_empty_dict_def select_jobs_by_tag_def new_set_def
      registered_def ex_sch_def ex_heap_def)

text \<open>
  What holds of the set returned by \<^verbatim>\<open>get_jobs\<close> and by the property \<^verbatim>\<open>jobs\<close> for every
  input: it is a new object, not the set held by the scheduler, and adding a job to it
  or removing one from it leaves the registered jobs as they were. Without tags, and
  with the empty set of tags and \<^verbatim>\<open>any_tag = False\<close>, it has the members of the
  scheduler's set.
\<close>

lemma get_jobs_fresh:
  "well_formed sch h \<longrightarrow>
     (let r = get_jobs sch h tags any_tag; p = jobs_property sch h in
        next_set h \<le> fst r \<and> fst r \<noteq> s_jobs sch
        \<and> next_set h \<le> fst p \<and> fst p \<noteq> s_jobs sch
        \<and> returned p = set (registered sch h)
        \<and> (tags = None \<or> (tags = Some {} \<and> \<not> any_tag) \<longrightarrow> returned r = set (registered sch h))
        \<and> registered sch (snd r) = registered sch h
        \<and> registered sch (snd p) = registered sch h
        \<and> (\<forall>job. registered sch (set_add (snd r) (fst r) job) = registered sch h
               \<and> registered sch (snd (set_remove (snd r) (fst r) job)) = registered sch h
               \<and> registered sch (set_add (snd p) (fst p) job) = registered sch h
               \<and> registered sch (snd (set_remove (snd p) (fst p) job)) = registered sch h))"
  by (cases tags)
     (auto simp: Let_def well_formed_def get_jobs_def jobs_property_def new_set_def returned_def
        registered_def set_add_def set_remove_def eq_empty_dict_def select_jobs_by_tag_def)

text \<open>
  Claim C10, at an input where the code departs from it: with the empty set of tags and
  \<^verbatim>\<open>any_tag = True\<close> the set that \<^verbatim>\<open>get_jobs\<close> returns is a new object, but it is empty and
  so not a copy of the set of the scheduler, which has four jobs; the property \<^verbatim>\<open>jobs\<close>
  returns a copy.
\<close>

theorem get_jobs_empty_tags_not_copy:
  "fst (get_jobs ex_sch ex_heap (Some {}) True) = 4
   \<and> s_jobs ex_sch = 3
   \<and> sets (snd (get_jobs ex_sch ex_heap (Some {}) True)) 4 = []
   \<and> sets (snd (get_jobs ex_sch ex_heap (Some {}) True)) 3 = [4, 5, 6, 7]
   \<and> returned (jobs_property ex_sch ex_heap) = {4, 5, 6, 7}"
  by (simp add: get_jobs_def jobs_property_def eq_empty_dict_def select_jobs_by_tag_def
      new_set_def returned_def ex_registered)
     (simp add: ex_sch_def ex_heap_def)

section \<open>Registration\<close>

text \<open>
  Claim C6. Each registration method, given a timing value that fails the check against
  the type of its discipline, raises a \<^verbatim>\<open>SchedulerError\<close> with the message of that
  discipline and leaves the store, and so the set of jobs, as it was. The message of
  \<^verbatim>\<open>once\<close> names the types it expects.
\<close>

theorem registration_type_errors:
  "(\<not> check_type M timing TimingCyclic \<longrightarrow>
      cyclic M sch h timing handle kw = (Inl (SchedulerError (CYCLIC_TYPE_ERROR_MSG M)), h))
   \<and> (\<not> check_type M timing TimingDailyUnion \<longrightarrow>
      minutely M sch h timing handle kw = (Inl (SchedulerError (MINUTELY_TYPE_ERROR_MSG M)), h)
      \<and> hourly M sch h timing handle kw = (Inl (SchedulerError (HOURLY_TYPE_ERROR_MSG M)), h)
      \<and> daily M sch h timing handle kw = (Inl (SchedulerError (DAILY_TYPE_ERROR_MSG M)), h))
   \<and> (\<not> check_type M timing TimingWeeklyUnion \<longrightarrow>
      weekly M sch h timing handle kw = (Inl (SchedulerError (WEEKLY_TYPE_ERROR_MSG M)), h))
   \<and> (\<not> check_type M timing TimingOnceUnion \<longrightarrow>
      once M sch h timing handle tags weight = (Inl (SchedulerError ONCE_TYPE_ERROR_MSG), h)
      \<and> (\<exists>pre. ONCE_TYPE_ERROR_MSG = pre @ ''dt.datetime | dt.timedelta | Weekday | dt.time''))"
  by (simp add: cyclic_def minutely_def hourly_def daily_def weekly_def once_def ONCE_TYPE_ERROR_MSG_def)

theorem registration_type_errors_witness:
  "\<not> check_type ex_env Other TimingCyclic
   \<and> cyclic ex_env ex_sch ex_heap Other 0 (defaults ex_env) = (Inl (SchedulerError ''cyclic''), ex_heap)
   \<and> \<not> check_type ex_env (Timedelta 5) TimingDailyUnion
   \<and> daily ex_env ex_sch ex_heap (Timedelta 5) 0 (defaults ex_env) = (Inl (SchedulerError ''daily''), ex_heap)
   \<and> \<not> check_type ex_env (Timedelta 5) TimingWeeklyUnion
   \<and> weekly ex_env ex_sch ex_heap (Timedelta 5) 0 (defaults ex_env) = (Inl (SchedulerError ''weekly''), ex_heap)
   \<and> \<not> check_type ex_env (PyList []) TimingOnceUnion
   \<and> once ex_env ex_sch ex_heap (PyList []) 0 None 1 = (Inl (SchedulerError ONCE_TYPE_ERROR_MSG), ex_heap)"
  using registration_type_errors [of ex_env Other ex_sch ex_heap 0 "defaults ex_env" None 1]
    registration_type_errors [of ex_env "Timedelta 5" ex_sch ex_heap 0 "defaults ex_env" None 1]
    registration_type_errors [of ex_env "PyList []" ex_sch ex_heap 0 "defaults ex_env" None 1]
  by (simp add: ex_env_def)



lemma private_schedule_returns:
  assumes "\<forall>job. validate M job = None"
  shows "\<exists>h'. private_schedule M sch h job_type timing handle kw = (Inr (next_job h), h')"
  using assms by (simp add: private_schedule_def Job_init_def Let_def)




section \<open>Construction of a scheduler\<close>

lemma Scheduler_init_held:
  "(case jobs of None \<Rightarrow> new_set [] h | Some r \<Rightarrow> if sets h r = [] then new_set [] h else (r, h)) = (a, h1)
   \<Longrightarrow> sets h1 a = supplied_jobs h jobs \<and> objs h1 = objs h"
  by (auto simp: supplied_jobs_def new_set_def split: option.splits if_splits)

lemma Scheduler_init_cases:
  "Scheduler_init M h max_exec tzinfo priority_function jobs n_threads =
     (if \<exists>job \<in> set (supplied_jobs h jobs). j_tzinfo (objs h job) \<noteq> tzinfo
      then (Inl (SchedulerError (TZ_ERROR_MSG M)),
            snd (case jobs of None \<Rightarrow> new_set [] h
                   | Some r \<Rightarrow> if sets h r = [] then new_set [] h else (r, h)))
      else (Inr \<lparr>s_max_exec = max_exec, s_tzinfo = tzinfo, s_priority_function = priority_function,
                  s_jobs = fst (case jobs of None \<Rightarrow> new_set [] h
                                  | Some r \<Rightarrow> if sets h r = [] then new_set [] h else (r, h)),
                  s_n_threads = n_threads\<rparr>,
            snd (case jobs of None \<Rightarrow> new_set [] h
                   | Some r \<Rightarrow> if sets h r = [] then new_set [] h else (r, h))))"
proof -
  obtain a h1 where e: "(case jobs of None \<Rightarrow> new_set [] h
      | Some r \<Rightarrow> if sets h r = [] then new_set [] h else (r, h)) = (a, h1)"
    by (cases "(case jobs of None \<Rightarrow> new_set [] h
      | Some r \<Rightarrow> if sets h r = [] then new_set [] h else (r, h))")
  note s = Scheduler_init_held [OF e]
  show ?thesis
  proof (cases "find (\<lambda>job. j_tzinfo (objs h1 job) \<noteq> tzinfo) (sets h1 a)")
    case None
    then have "\<not> (\<exists>job \<in> set (supplied_jobs h jobs). j_tzinfo (objs h job) \<noteq> tzinfo)"
      using s by (auto simp: find_None_iff)
    then show ?thesis using None by (simp add: Scheduler_init_def e)
  next
    case (Some job)
    then have "\<exists>job \<in> set (supplied_jobs h jobs). j_tzinfo (objs h job) \<noteq> tzinfo"
      using s by (auto simp: find_Some_iff)
    then show ?thesis using Some by (simp add: Scheduler_init_def e)
  qed
qed

lemma Scheduler_init_inv:
  assumes "Scheduler_init M h max_exec tzinfo priority_function jobs n_threads = (Inr sch, h')"
    and "supplied_ok h jobs"
  shows "sch_inv (sch, h')"
proof -
  have nm: "\<forall>job \<in> set (supplied_jobs h jobs). j_tzinfo (objs h job) = tzinfo"
    using assms(1) by (auto simp: Scheduler_init_cases split: if_splits)
  show ?thesis
    using assms nm
    by (cases jobs)
       (auto simp: Scheduler_init_cases sch_inv_def well_formed_def tz_ok_def registered_def
          supplied_ok_def supplied_jobs_def new_set_def list_all_iff split: if_splits)
qed

lemma inv_exec_jobs:
  assumes "tz_ok sch h"
  shows "tz_ok sch (snd (exec_jobs M sch h ref_dt f))"
  using assms exec_jobs_keeps [of sch M h ref_dt f]
  by (auto simp: tz_ok_def keeps_def list_all_iff)

lemma inv_delete_job:
  assumes "well_formed sch h" "tz_ok sch h"
  shows "well_formed sch (snd (delete_job sch h job)) \<and> tz_ok sch (snd (delete_job sch h job))"
  using assms
  by (auto simp: delete_job_def set_remove_def well_formed_def tz_ok_def registered_def list_all_iff
      dest: notin_set_remove1)

lemma inv_delete_jobs:
  assumes "well_formed sch h" "tz_ok sch h"
  shows "well_formed (fst (snd (delete_jobs sch h tags any_tag))) (snd (snd (delete_jobs sch h tags any_tag)))
       \<and> tz_ok (fst (snd (delete_jobs sch h tags any_tag))) (snd (snd (delete_jobs sch h tags any_tag)))"
  using assms
  by (auto simp: delete_jobs_def new_set_def well_formed_def tz_ok_def registered_def list_all_iff Let_def)

lemma inv_new_set:
  assumes "well_formed sch h" "tz_ok sch h"
  shows "well_formed sch (snd (new_set xs h)) \<and> tz_ok sch (snd (new_set xs h))"
  using assms by (auto simp: new_set_def well_formed_def tz_ok_def registered_def list_all_iff)

lemma inv_private_schedule:
  assumes "well_formed sch h" "tz_ok sch h"
  shows "well_formed sch (snd (private_schedule M sch h job_type timing handle kw))
       \<and> tz_ok sch (snd (private_schedule M sch h job_type timing handle kw))"
  using assms
  by (auto simp: private_schedule_def Job_init_def Let_def set_add_def well_formed_def tz_ok_def
      registered_def list_all_iff split: option.splits)

lemma inv_do_call: "sch_inv s \<Longrightarrow> sch_inv (do_call M c s)"
proof -
  assume i: "sch_inv s"
  obtain sch h where s: "s = (sch, h)" by (cases s)
  from i have w: "well_formed sch h" and t: "tz_ok sch h" by (simp_all add: sch_inv_def s)
  show ?thesis
  proof (cases c)
    case (Exec_jobs ref_dt f)
    then show ?thesis using exec_jobs_wf [OF w] inv_exec_jobs [OF t] by (simp add: sch_inv_def s)
  next
    case (Delete_job job)
    then show ?thesis using inv_delete_job [OF w t] by (simp add: sch_inv_def s)
  next
    case (Delete_jobs tags any_tag)
    then show ?thesis using inv_delete_jobs [OF w t] by (simp add: sch_inv_def s)
  next
    case (Get_jobs tags any_tag)
    then show ?thesis using inv_new_set [OF w t] by (simp add: sch_inv_def s get_jobs_def)
  next
    case Jobs
    then show ?thesis using inv_new_set [OF w t] by (simp add: sch_inv_def s jobs_property_def)
  next
    case (Cyclic timing handle kw)
    then show ?thesis using inv_private_schedule [OF w t] w t by (simp add: sch_inv_def s cyclic_def)
  next
    case (Minutely timing handle kw)
    then show ?thesis using inv_private_schedule [OF w t] w t by (simp add: sch_inv_def s minutely_def)
  next
    case (Hourly timing handle kw)
    then show ?thesis using inv_private_schedule [OF w t] w t by (simp add: sch_inv_def s hourly_def)
  next
    case (Daily timing handle kw)
    then show ?thesis using inv_private_schedule [OF w t] w t by (simp add: sch_inv_def s daily_def)
  next
    case (Weekly timing handle kw)
    then show ?thesis using inv_private_schedule [OF w t] w t by (simp add: sch_inv_def s weekly_def)
  next
    case (Once timing handle tags weight)
    then show ?thesis using inv_private_schedule [OF w t] w t
      by (cases timing) (simp_all add: sch_inv_def s once_def Let_def split: option.splits)
  qed
qed

lemma inv_calls: "sch_inv s \<Longrightarrow> sch_inv (fold (do_call M) cs s)"
  by (induction cs arbitrary: s) (simp_all add: inv_do_call)

text \<open>
  Claim C9. The constructor raises the timezone error when a job of the given set has a
  timezone other than the one of the scheduler, and succeeds otherwise. A scheduler
  that was constructed holds the given jobs, all with its own timezone, and whatever
  calls are made on it afterwards, every job it holds has its timezone.
\<close>

theorem init_timezone:
  "(let r = Scheduler_init M h max_exec tzinfo priority_function jobs n_threads
    in ((\<exists>job \<in> set (supplied_jobs h jobs). j_tzinfo (objs h job) \<noteq> tzinfo) \<longrightarrow>
          fst r = Inl (SchedulerError (TZ_ERROR_MSG M)))
       \<and> ((\<forall>job \<in> set (supplied_jobs h jobs). j_tzinfo (objs h job) = tzinfo) \<longrightarrow>
          (\<exists>sch. fst r = Inr sch))
       \<and> (\<forall>sch. fst r = Inr sch \<longrightarrow>
            s_tzinfo sch = tzinfo
            \<and> registered sch (snd r) = supplied_jobs h jobs
            \<and> objs (snd r) = objs h
            \<and> (\<forall>job \<in> set (registered sch (snd r)). j_tzinfo (objs (snd r) job) = s_tzinfo sch)
            \<and> (supplied_ok h jobs \<longrightarrow>
                 (\<forall>cs. tz_ok (fst (fold (do_call M) cs (sch, snd r)))
                         (snd (fold (do_call M) cs (sch, snd r)))))))"
proof -
  let ?r = "Scheduler_init M h max_exec tzinfo priority_function jobs n_threads"
  obtain a h1 where e: "(case jobs of None \<Rightarrow> new_set [] h
      | Some r \<Rightarrow> if sets h r = [] then new_set [] h else (r, h)) = (a, h1)"
    by (cases "(case jobs of None \<Rightarrow> new_set [] h
      | Some r \<Rightarrow> if sets h r = [] then new_set [] h else (r, h))")
  note s = Scheduler_init_held [OF e]
  have A: "(\<exists>job \<in> set (supplied_jobs h jobs). j_tzinfo (objs h job) \<noteq> tzinfo) \<longrightarrow>
          fst ?r = Inl (SchedulerError (TZ_ERROR_MSG M))"
    by (simp add: Scheduler_init_cases)
  have B: "(\<forall>job \<in> set (supplied_jobs h jobs). j_tzinfo (objs h job) = tzinfo) \<longrightarrow>
          (\<exists>sch. fst ?r = Inr sch)"
    by (simp add: Scheduler_init_cases)
  have C: "s_tzinfo sch = tzinfo
            \<and> registered sch (snd ?r) = supplied_jobs h jobs
            \<and> objs (snd ?r) = objs h
            \<and> (\<forall>job \<in> set (registered sch (snd ?r)). j_tzinfo (objs (snd ?r) job) = s_tzinfo sch)"
    if "fst ?r = Inr sch" for sch
    using that s by (auto simp: Scheduler_init_cases e registered_def split: if_splits)
  have D: "tz_ok (fst (fold (do_call M) cs (sch, snd ?r))) (snd (fold (do_call M) cs (sch, snd ?r)))"
    if "fst ?r = Inr sch" "supplied_ok h jobs" for sch cs
  proof -
    have "?r = (Inr sch, snd ?r)" using that(1) by (metis prod.collapse)
    then have "sch_inv (sch, snd ?r)" using that(2) by (rule Scheduler_init_inv)
    then have "sch_inv (fold (do_call M) cs (sch, snd ?r))" by (rule inv_calls)
    then show ?thesis by (simp add: sch_inv_def)
  qed
  show ?thesis unfolding Let_def using A B C D by blast
qed

theorem init_timezone_witness:
  "supplied_jobs ex_heap (Some 3) = [4, 5, 6, 7]
   \<and> j_tzinfo (objs ex_heap 4) \<noteq> Some 60
   \<and> fst (Scheduler_init ex_env ex_heap 2 (Some 60) ex_priority (Some 3) 1)
       = Inl (SchedulerError ''tz'')
   \<and> map (\<lambda>job. j_tzinfo (objs ex_heap job)) (supplied_jobs ex_heap (Some 3))
       = [None, None, None, None]
   \<and> supplied_ok ex_heap (Some 3)
   \<and> fst (Scheduler_init ex_env ex_heap 2 None ex_priority (Some 3) 1) = Inr ex_sch
   \<and> registered ex_sch (snd (Scheduler_init ex_env ex_heap 2 None ex_priority (Some 3) 1))
       = [4, 5, 6, 7]
   \<and> tz_ok (fst (fold (do_call ex_env) [Exec_jobs 5000000 True, Delete_job 6]
               (ex_sch, snd (Scheduler_init ex_env ex_heap 2 None ex_priority (Some 3) 1))))
           (snd (fold (do_call ex_env) [Exec_jobs 5000000 True, Delete_job 6]
               (ex_sch, snd (Scheduler_init ex_env ex_heap 2 None ex_priority (Some 3) 1))))"
proof -
  let ?r = "Scheduler_init ex_env ex_heap 2 None ex_priority (Some 3) 1"
  have m: "\<exists>job \<in> set (supplied_jobs ex_heap (Some 3)). j_tzinfo (objs ex_heap job) \<noteq> Some 60"
    by (simp add: ex_supplied ex_tz)
  have s: "fst ?r = Inr ex_sch"
    by (simp add: Scheduler_init_cases ex_supplied ex_tz) (simp add: ex_sch_def ex_heap_def)
  note a = init_timezone [of ex_env ex_heap 2 "Some 60" ex_priority "Some 3" 1, unfolded Let_def]
  note b = init_timezone [of ex_env ex_heap 2 None ex_priority "Some 3" 1, unfolded Let_def]
  from a m have e: "fst (Scheduler_init ex_env ex_heap 2 (Some 60) ex_priority (Some 3) 1)
      = Inl (SchedulerError (TZ_ERROR_MSG ex_env))" by blast
  from b s ex_supplied(2) have "registered ex_sch (snd ?r) = supplied_jobs ex_heap (Some 3)
     \<and> tz_ok (fst (fold (do_call ex_env) [Exec_jobs 5000000 True, Delete_job 6] (ex_sch, snd ?r)))
             (snd (fold (do_call ex_env) [Exec_jobs 5000000 True, Delete_job 6] (ex_sch, snd ?r)))"
    by blast
  with s e ex_supplied(2) show ?thesis by (simp add: ex_supplied ex_tz) (simp add: ex_env_def)
qed

end
